theory Spec2Isabelle
  imports Main "HOL-Library.Monad_Syntax"
begin

section \<open>Board state (engine.js)\<close>

text \<open>
  The engine's constants: \<open>WHITE = 'w'\<close>, \<open>BLACK = 'b'\<close> and the six piece letters.
  A piece is the object \<open>{ color, type }\<close>; a square is \<open>{ row, col }\<close>, both array
  indices (row 0 is rank 8, column 0 is file a).
\<close>

datatype color = White | Black

datatype piece_type = Pawn | Knight | Bishop | Rook | Queen | King

record piece =
  color :: color
  type :: piece_type

record square =
  row :: nat
  col :: nat

text \<open>
  A board is the array of eight row arrays that \<open>parseFEN\<close> builds and \<open>cloneBoard\<close>
  copies. The model reads it as the map from a row index below 8 and a column index to the
  cell: \<open>None\<close> is an empty cell (\<open>null\<close>, or \<open>undefined\<close> for an index the row array
  does not hold, which the code tests the same way, by truthiness). A write
  \<open>board[r][c] = v\<close> is the update of that map (JavaScript extends the row array when
  \<open>c\<close> is beyond its length). Rows 8 and above do not exist: \<open>board[r]\<close> is
  \<open>undefined\<close> there and indexing it throws a TypeError, which the functions below that
  index a row by a caller's square return as \<open>None\<close> of an \<open>option\<close>.
\<close>

type_synonym board = "nat \<Rightarrow> nat \<Rightarrow> piece option"

datatype side = KingSide | QueenSide

text \<open>
  A move is \<open>{ from, to, promotion?, enPassant?, castling? }\<close>; the castling flag is
  \<open>'K'\<close> or \<open>'Q'\<close>. The fields are independent: the engine never checks one against
  another.
\<close>

record move =
  mfrom :: square
  mto :: square
  promotion :: "piece_type option"
  isEnPassant :: bool
  castlingSide :: "side option"

record castling_rights =
  wK :: bool
  wQ :: bool
  bK :: bool
  bQ :: bool

record history_entry =
  h_move :: move
  h_captured :: "piece option"
  prevCastling :: castling_rights
  prevEnPassant :: "square option"

record captured_pieces =
  cap_w :: "piece_type list"
  cap_b :: "piece_type list"

text \<open>The result strings \<open>'1-0'\<close>, \<open>'0-1'\<close> and \<open>'1/2-1/2'\<close>; \<open>null\<close> is \<open>None\<close>.\<close>

datatype game_result = WhiteWins | BlackWins | Draw

record game_state =
  board :: board
  turn :: color
  castling :: castling_rights
  enPassant :: "square option"
  halfMoveClock :: int
  fullMoveNumber :: int
  moveHistory :: "history_entry list"
  capturedPieces :: captured_pieces
  moveNotations :: "string list"
  gameOver :: bool
  result :: "game_result option"

subsection \<open>Helpers\<close>

definition inBounds :: "int \<Rightarrow> int \<Rightarrow> bool" where
  "inBounds r c \<longleftrightarrow> r \<ge> 0 \<and> r < 8 \<and> c \<ge> 0 \<and> c < 8"

text \<open>
  \<open>board[r][c]\<close> for indices the code has computed as numbers and checked with
  \<open>inBounds\<close> (or that are constants of the code) before the read.
\<close>

definition cell :: "board \<Rightarrow> int \<Rightarrow> int \<Rightarrow> piece option" where
  "cell b r c = b (nat r) (nat c)"

text \<open>The assignment \<open>board[r][c] = v\<close>, for a row \<open>r\<close> below 8.\<close>

definition put :: "board \<Rightarrow> nat \<Rightarrow> nat \<Rightarrow> piece option \<Rightarrow> board" where
  "put b r c v = b(r := (b r)(c := v))"

definition sq :: "int \<Rightarrow> int \<Rightarrow> square" where
  "sq r c = \<lparr>row = nat r, col = nat c\<rparr>"

text \<open>The loop nest \<open>for r < 8, for c < 8\<close>, in its order.\<close>

definition squares :: "(nat \<times> nat) list" where
  "squares = concat (map (\<lambda>r. map (\<lambda>c. (r, c)) [0..<8]) [0..<8])"

definition cloneBoard :: "board \<Rightarrow> board" where
  "cloneBoard b = (\<lambda>r c. case b r c of None \<Rightarrow> None | Some p \<Rightarrow> Some p)"

definition cloneState :: "game_state \<Rightarrow> game_state" where
  "cloneState state =
     \<lparr>board = cloneBoard (board state),
      turn = turn state,
      castling = castling state,
      enPassant = (case enPassant state of None \<Rightarrow> None | Some e \<Rightarrow> Some e),
      halfMoveClock = halfMoveClock state,
      fullMoveNumber = fullMoveNumber state,
      moveHistory = moveHistory state,
      capturedPieces = capturedPieces state,
      moveNotations = moveNotations state,
      gameOver = gameOver state,
      result = result state\<rparr>"

definition opponent :: "color \<Rightarrow> color" where
  "opponent c = (if c = White then Black else White)"

definition isKingOf :: "color \<Rightarrow> piece option \<Rightarrow> bool" where
  "isKingOf c x = (case x of None \<Rightarrow> False | Some p \<Rightarrow> color p = c \<and> type p = King)"

definition findKing :: "board \<Rightarrow> color \<Rightarrow> square option" where
  "findKing b c =
     (case List.find (\<lambda>(r, k). isKingOf c (b r k)) squares of
        None \<Rightarrow> None
      | Some (r, k) \<Rightarrow> Some \<lparr>row = r, col = k\<rparr>)"

subsection \<open>Attack detection\<close>

definition knightOffsets :: "(int \<times> int) list" where
  "knightOffsets = [(-2,-1),(-2,1),(-1,-2),(-1,2),(1,-2),(1,2),(2,-1),(2,1)]"

text \<open>The loop nest \<open>dr = -1..1, dc = -1..1\<close> without \<open>(0, 0)\<close>.\<close>

definition kingOffsets :: "(int \<times> int) list" where
  "kingOffsets = [(-1,-1),(-1,0),(-1,1),(0,-1),(0,1),(1,-1),(1,0),(1,1)]"

definition diagDirs :: "(int \<times> int) list" where
  "diagDirs = [(-1,-1),(-1,1),(1,-1),(1,1)]"

definition straightDirs :: "(int \<times> int) list" where
  "straightDirs = [(-1,0),(1,0),(0,-1),(0,1)]"

text \<open>
  \<open>inBounds(r, c) && board[r][c] && board[r][c].color === byColor && board[r][c].type === t\<close>
\<close>

definition holds :: "board \<Rightarrow> int \<Rightarrow> int \<Rightarrow> color \<Rightarrow> piece_type \<Rightarrow> bool" where
  "holds b r c byColor t =
     (inBounds r c \<and>
      (case cell b r c of None \<Rightarrow> False | Some p \<Rightarrow> color p = byColor \<and> type p = t))"

text \<open>
  One \<open>while (inBounds(r, c))\<close> loop of the sliding checks: the first occupied square
  decides. The code runs it on the eight unit directions only; the test on the direction
  is the model's, for the termination proof (on \<open>(0, 0)\<close> the source's loop would not
  advance).
\<close>

function rayAttacked :: "board \<Rightarrow> color \<Rightarrow> piece_type \<Rightarrow> int \<Rightarrow> int \<Rightarrow> int \<Rightarrow> int \<Rightarrow> bool" where
  "rayAttacked b byColor slider dr dc r c =
     (if inBounds r c \<and> (dr \<noteq> 0 \<or> dc \<noteq> 0) then
        (case cell b r c of
           Some p \<Rightarrow> color p = byColor \<and> (type p = slider \<or> type p = Queen)
         | None \<Rightarrow> rayAttacked b byColor slider dr dc (r + dr) (c + dc))
      else False)"
  by pat_completeness auto
termination
  by (relation "measure (\<lambda>(b, byColor, slider, dr, dc, r, c).
        if dr > 0 then nat (8 - r) else if dr < 0 then nat (r + 1)
        else if dc > 0 then nat (8 - c) else nat (c + 1))")
     (auto simp: inBounds_def)

declare rayAttacked.simps [simp del]

definition isSquareAttacked :: "board \<Rightarrow> nat \<Rightarrow> nat \<Rightarrow> color \<Rightarrow> bool" where
  "isSquareAttacked b r c byColor =
     (list_ex (\<lambda>(dr, dc). holds b (int r + dr) (int c + dc) byColor Knight) knightOffsets
      \<or> list_ex (\<lambda>(dr, dc). holds b (int r + dr) (int c + dc) byColor King) kingOffsets
      \<or> (let pawnDir = (if byColor = White then 1 else -1) in
           list_ex (\<lambda>dc. holds b (int r + pawnDir) (int c + dc) byColor Pawn) [-1, 1])
      \<or> list_ex (\<lambda>(dr, dc). rayAttacked b byColor Bishop dr dc (int r + dr) (int c + dc)) diagDirs
      \<or> list_ex (\<lambda>(dr, dc). rayAttacked b byColor Rook dr dc (int r + dr) (int c + dc)) straightDirs)"

definition isInCheck :: "board \<Rightarrow> color \<Rightarrow> bool" where
  "isInCheck b c =
     (case findKing b c of
        None \<Rightarrow> False
      | Some king \<Rightarrow> isSquareAttacked b (row king) (col king) (opponent c))"

subsection \<open>Applying a move to a board\<close>

text \<open>
  \<open>applyMoveToBoard\<close> changes the board in place; the model returns the changed board.
  \<open>None\<close> is the TypeError of the source: a row of the move that the board does not
  have, or \<open>piece.color\<close> of an empty origin when the move carries a promotion.
\<close>

definition applyMoveToBoard :: "board \<Rightarrow> move \<Rightarrow> board option" where
  "applyMoveToBoard b m =
     (let r = row (mfrom m) in
      if 8 \<le> r then None
      else
        let p = b r (col (mfrom m));
            b1 = put b r (col (mfrom m)) None;
            b2 = (if isEnPassant m then put b1 r (col (mto m)) None else b1);
            b3 = (case castlingSide m of
                    None \<Rightarrow> b2
                  | Some KingSide \<Rightarrow> put (put b2 r 5 (b2 r 7)) r 7 None
                  | Some QueenSide \<Rightarrow> put (put b2 r 3 (b2 r 0)) r 0 None)
        in if 8 \<le> row (mto m) then None
           else (case promotion m of
                   Some promo \<Rightarrow>
                     (case p of
                        None \<Rightarrow> None
                      | Some pc \<Rightarrow>
                          Some (put b3 (row (mto m)) (col (mto m))
                                  (Some \<lparr>color = color pc, type = promo\<rparr>)))
                 | None \<Rightarrow> Some (put b3 (row (mto m)) (col (mto m)) p)))"

subsection \<open>Pseudo-legal move generation\<close>

text \<open>The move objects the generator pushes: \<open>{ from, to }\<close> and its three variants.\<close>

definition plainMove :: "square \<Rightarrow> square \<Rightarrow> move" where
  "plainMove f t =
     \<lparr>mfrom = f, mto = t, promotion = None, isEnPassant = False, castlingSide = None\<rparr>"

definition promoMove :: "square \<Rightarrow> square \<Rightarrow> piece_type \<Rightarrow> move" where
  "promoMove f t promo = (plainMove f t)\<lparr>promotion := Some promo\<rparr>"

definition epMove :: "square \<Rightarrow> square \<Rightarrow> move" where
  "epMove f t = (plainMove f t)\<lparr>isEnPassant := True\<rparr>"

definition castleMove :: "square \<Rightarrow> square \<Rightarrow> side \<Rightarrow> move" where
  "castleMove f t s = (plainMove f t)\<lparr>castlingSide := Some s\<rparr>"

text \<open>\<open>state.castling[color + 'K']\<close> and \<open>state.castling[color + 'Q']\<close>.\<close>

definition right :: "castling_rights \<Rightarrow> color \<Rightarrow> side \<Rightarrow> bool" where
  "right cr c s =
     (case (c, s) of
        (White, KingSide) \<Rightarrow> wK cr
      | (White, QueenSide) \<Rightarrow> wQ cr
      | (Black, KingSide) \<Rightarrow> bK cr
      | (Black, QueenSide) \<Rightarrow> bQ cr)"

text \<open>
  One direction of \<open>slideMoves\<close>: the \<open>while (inBounds(r, c))\<close> loop. The test on the
  direction is the model's, as in \<open>rayAttacked\<close>.
\<close>

function slideRay :: "board \<Rightarrow> color \<Rightarrow> square \<Rightarrow> int \<Rightarrow> int \<Rightarrow> int \<Rightarrow> int \<Rightarrow> move list" where
  "slideRay b c f dr dc r k =
     (if inBounds r k \<and> (dr \<noteq> 0 \<or> dc \<noteq> 0) then
        (case cell b r k of
           Some p \<Rightarrow> (if color p \<noteq> c then [plainMove f (sq r k)] else [])
         | None \<Rightarrow> plainMove f (sq r k) # slideRay b c f dr dc (r + dr) (k + dc))
      else [])"
  by pat_completeness auto
termination
  by (relation "measure (\<lambda>(b, c, f, dr, dc, r, k).
        if dr > 0 then nat (8 - r) else if dr < 0 then nat (r + 1)
        else if dc > 0 then nat (8 - k) else nat (k + 1))")
     (auto simp: inBounds_def)

declare slideRay.simps [simp del]

definition slideMoves :: "board \<Rightarrow> color \<Rightarrow> square \<Rightarrow> (int \<times> int) list \<Rightarrow> move list" where
  "slideMoves b c f dirs =
     concat (map (\<lambda>(dr, dc). slideRay b c f dr dc (int (row f) + dr) (int (col f) + dc)) dirs)"

text \<open>The moves of one target square of a pawn that reaches it: four on the last rank.\<close>

definition pawnTo :: "square \<Rightarrow> int \<Rightarrow> int \<Rightarrow> int \<Rightarrow> move list" where
  "pawnTo f promoRow nr nc =
     (if nr = promoRow then map (promoMove f (sq nr nc)) [Queen, Rook, Bishop, Knight]
      else [plainMove f (sq nr nc)])"

definition pawnMoves :: "game_state \<Rightarrow> color \<Rightarrow> nat \<Rightarrow> nat \<Rightarrow> move list" where
  "pawnMoves state c r k =
     (let b = board state;
          dir = (if c = White then -1 else (1::int));
          startRow = (if c = White then 6 else (1::int));
          promoRow = (if c = White then 0 else (7::int));
          f = \<lparr>row = r, col = k\<rparr>;
          nr = int r + dir
      in (if inBounds nr (int k) \<and> cell b nr (int k) = None then
            pawnTo f promoRow nr (int k)
            @ (let nr2 = int r + 2 * dir in
               if int r = startRow \<and> cell b nr2 (int k) = None
               then [plainMove f (sq nr2 (int k))] else [])
          else [])
         @ concat (map (\<lambda>dc.
             let nc = int k + dc in
             if \<not> inBounds nr nc then []
             else (case cell b nr nc of
                     Some target \<Rightarrow> (if color target \<noteq> c then pawnTo f promoRow nr nc else [])
                   | None \<Rightarrow> [])
                  @ (case enPassant state of
                       Some ep \<Rightarrow>
                         (if int (row ep) = nr \<and> int (col ep) = nc then [epMove f (sq nr nc)]
                          else [])
                     | None \<Rightarrow> [])) [-1, 1]))"

text \<open>Knight and king steps: onto an empty square or a piece of the other colour.\<close>

definition stepMoves :: "board \<Rightarrow> color \<Rightarrow> square \<Rightarrow> (int \<times> int) list \<Rightarrow> move list" where
  "stepMoves b c f offsets =
     concat (map (\<lambda>(dr, dc).
       let nr = int (row f) + dr; nc = int (col f) + dc in
       if \<not> inBounds nr nc then []
       else (case cell b nr nc of
               None \<Rightarrow> [plainMove f (sq nr nc)]
             | Some p \<Rightarrow> (if color p \<noteq> c then [plainMove f (sq nr nc)] else []))) offsets)"

definition isRookOf :: "color \<Rightarrow> piece option \<Rightarrow> bool" where
  "isRookOf c x = (case x of None \<Rightarrow> False | Some p \<Rightarrow> type p = Rook \<and> color p = c)"

definition castlingMoves :: "game_state \<Rightarrow> color \<Rightarrow> nat \<Rightarrow> nat \<Rightarrow> move list" where
  "castlingMoves state c r k =
     (let b = board state;
          hr = (if c = White then 7 else (0::nat));
          f = \<lparr>row = r, col = k\<rparr>
      in if r = hr \<and> k = 4 then
           (if right (castling state) c KingSide \<and> b hr 5 = None \<and> b hr 6 = None
               \<and> isRookOf c (b hr 7)
            then [castleMove f \<lparr>row = hr, col = 6\<rparr> KingSide] else [])
           @ (if right (castling state) c QueenSide \<and> b hr 3 = None \<and> b hr 2 = None
                 \<and> b hr 1 = None \<and> isRookOf c (b hr 0)
              then [castleMove f \<lparr>row = hr, col = 2\<rparr> QueenSide] else [])
         else [])"

text \<open>The body of the loop nest of \<open>getPseudoMoves\<close> at one square.\<close>

definition pieceMoves :: "game_state \<Rightarrow> color \<Rightarrow> nat \<Rightarrow> nat \<Rightarrow> move list" where
  "pieceMoves state c r k =
     (case board state r k of
        None \<Rightarrow> []
      | Some p \<Rightarrow>
          if color p \<noteq> c then []
          else
            let f = \<lparr>row = r, col = k\<rparr> in
            (case type p of
               Pawn \<Rightarrow> pawnMoves state c r k
             | Knight \<Rightarrow> stepMoves (board state) c f knightOffsets
             | Bishop \<Rightarrow> slideMoves (board state) c f diagDirs
             | Rook \<Rightarrow> slideMoves (board state) c f straightDirs
             | Queen \<Rightarrow> slideMoves (board state) c f (diagDirs @ straightDirs)
             | King \<Rightarrow> stepMoves (board state) c f kingOffsets @ castlingMoves state c r k))"

definition getPseudoMoves :: "game_state \<Rightarrow> color \<Rightarrow> move list" where
  "getPseudoMoves state c = concat (map (\<lambda>(r, k). pieceMoves state c r k) squares)"

subsection \<open>Legal moves\<close>

text \<open>
  The castling test of \<open>getLegalMoves\<close>: the king is not in check and the two squares it
  crosses are not attacked, on the board before the move.
\<close>

definition castlingBlocked :: "board \<Rightarrow> color \<Rightarrow> move \<Rightarrow> bool" where
  "castlingBlocked b c m =
     (case castlingSide m of
        None \<Rightarrow> False
      | Some s \<Rightarrow>
          isInCheck b c \<or>
          (let r = row (mfrom m) in
           if s = KingSide
           then isSquareAttacked b r 5 (opponent c) \<or> isSquareAttacked b r 6 (opponent c)
           else isSquareAttacked b r 3 (opponent c) \<or> isSquareAttacked b r 2 (opponent c)))"

text \<open>
  The loop of \<open>getLegalMoves\<close> over the pseudo-legal moves. \<open>None\<close> is a TypeError of
  \<open>applyMoveToBoard\<close> on the scratch copy.
\<close>

fun legalLoop :: "board \<Rightarrow> color \<Rightarrow> move list \<Rightarrow> move list option" where
  "legalLoop b c [] = Some []"
| "legalLoop b c (m # ms) =
     (if castlingBlocked b c m then legalLoop b c ms
      else
        (case applyMoveToBoard (cloneBoard b) m of
           None \<Rightarrow> None
         | Some newBoard \<Rightarrow>
             (case legalLoop b c ms of
                None \<Rightarrow> None
              | Some rest \<Rightarrow> Some (if \<not> isInCheck newBoard c then m # rest else rest))))"

text \<open>\<open>getLegalMoves(state, color)\<close>; the colour may be left out (\<open>color || state.turn\<close>).\<close>

definition getLegalMoves :: "game_state \<Rightarrow> color option \<Rightarrow> move list option" where
  "getLegalMoves state co =
     (let c = (case co of None \<Rightarrow> turn state | Some c' \<Rightarrow> c') in
      legalLoop (board state) c (getPseudoMoves state c))"

subsection \<open>Notation\<close>

text \<open>A number appended to a string: its decimal digits.\<close>

definition digitChar :: "nat \<Rightarrow> char" where
  "digitChar n = char_of (48 + n)"

fun showNat :: "nat \<Rightarrow> string" where
  "showNat n = (if n < 10 then [digitChar n] else showNat (n div 10) @ [digitChar (n mod 10)])"

declare showNat.simps [simp del]

definition showInt :: "int \<Rightarrow> string" where
  "showInt i = (if i < 0 then CHR ''-'' # showNat (nat (- i)) else showNat (nat i))"

text \<open>\<open>String.fromCharCode(97 + c)\<close>, for the columns of a board.\<close>

definition colLetter :: "nat \<Rightarrow> char" where
  "colLetter c = char_of (97 + c)"

definition pieceLetter :: "piece_type \<Rightarrow> char" where
  "pieceLetter t =
     (case t of Pawn \<Rightarrow> CHR ''P'' | Knight \<Rightarrow> CHR ''N'' | Bishop \<Rightarrow> CHR ''B''
      | Rook \<Rightarrow> CHR ''R'' | Queen \<Rightarrow> CHR ''Q'' | King \<Rightarrow> CHR ''K'')"

text \<open>
  The \<open>filter\<close> of \<open>getMoveNotation\<close>; it reads the board at the origin of a move
  without a bounds check (a TypeError on a row the board does not have).
\<close>

fun samePieceMoves :: "game_state \<Rightarrow> move \<Rightarrow> piece \<Rightarrow> move list \<Rightarrow> move list option" where
  "samePieceMoves state mv p [] = Some []"
| "samePieceMoves state mv p (m # ms) =
     (if row (mto m) = row (mto mv) \<and> col (mto m) = col (mto mv) then
        (if 8 \<le> row (mfrom m) then None
         else
           (case samePieceMoves state mv p ms of
              None \<Rightarrow> None
            | Some rest \<Rightarrow>
                Some (if (case board state (row (mfrom m)) (col (mfrom m)) of
                            None \<Rightarrow> False
                          | Some q \<Rightarrow> type q = type p \<and>
                              (row (mfrom m) \<noteq> row (mfrom mv) \<or> col (mfrom m) \<noteq> col (mfrom mv)))
                      then m # rest else rest)))
      else samePieceMoves state mv p ms)"

definition disambiguation :: "move \<Rightarrow> move list \<Rightarrow> string" where
  "disambiguation mv same =
     (if same \<noteq> [] then
        (let sameCol = list_ex (\<lambda>m. col (mfrom m) = col (mfrom mv)) same;
             sameRow = list_ex (\<lambda>m. row (mfrom m) = row (mfrom mv)) same
         in if \<not> sameCol then [colLetter (col (mfrom mv))]
            else if \<not> sameRow then showInt (8 - int (row (mfrom mv)))
            else colLetter (col (mfrom mv)) # showInt (8 - int (row (mfrom mv))))
      else [])"

definition getMoveNotation :: "game_state \<Rightarrow> move \<Rightarrow> piece \<Rightarrow> piece option \<Rightarrow> string option" where
  "getMoveNotation state mv p captured =
     (case castlingSide mv of
        Some KingSide \<Rightarrow> Some ''O-O''
      | Some QueenSide \<Rightarrow> Some ''O-O-O''
      | None \<Rightarrow>
          (case (if type p \<noteq> Pawn
                 then map_option (\<lambda>same. pieceLetter (type p) # disambiguation mv same)
                        (samePieceMoves state mv p (getPseudoMoves state (color p)))
                 else Some []) of
             None \<Rightarrow> None
           | Some prefix \<Rightarrow>
               Some (prefix
                 @ (if captured \<noteq> None \<or> isEnPassant mv
                    then (if type p = Pawn then [colLetter (col (mfrom mv))] else []) @ ''x''
                    else [])
                 @ colLetter (col (mto mv)) # showInt (8 - int (row (mto mv)))
                 @ (case promotion mv of None \<Rightarrow> [] | Some promo \<Rightarrow> [CHR ''='', pieceLetter promo]))))"

subsection \<open>Draw detection\<close>

text \<open>The list \<open>pieces[c]\<close> of \<open>isInsufficientMaterial\<close>: the pieces of a colour but its kings.\<close>

definition nonKings :: "board \<Rightarrow> color \<Rightarrow> (piece_type \<times> nat \<times> nat) list" where
  "nonKings b c =
     concat (map (\<lambda>(r, k).
       case b r k of
         None \<Rightarrow> []
       | Some p \<Rightarrow> (if type p \<noteq> King \<and> color p = c then [(type p, r, k)] else [])) squares)"

definition minor :: "piece_type \<Rightarrow> bool" where
  "minor t \<longleftrightarrow> t = Bishop \<or> t = Knight"

definition isInsufficientMaterial :: "board \<Rightarrow> bool" where
  "isInsufficientMaterial b =
     (let wp = nonKings b White; bp = nonKings b Black in
      if length wp = 0 \<and> length bp = 0 then True
      else if length wp = 0 \<and> length bp = 1 \<and> minor (fst (bp ! 0)) then True
      else if length bp = 0 \<and> length wp = 1 \<and> minor (fst (wp ! 0)) then True
      else if length wp = 1 \<and> length bp = 1 \<and> fst (wp ! 0) = Bishop \<and> fst (bp ! 0) = Bishop
              \<and> (fst (snd (wp ! 0)) + snd (snd (wp ! 0))) mod 2
                = (fst (snd (bp ! 0)) + snd (snd (bp ! 0))) mod 2 then True
      else False)"

subsection \<open>Make move\<close>

text \<open>\<open>newState.castling[c + 'K'] = false\<close> and \<open>newState.castling[c + 'Q'] = false\<close>.\<close>

definition clearRight :: "castling_rights \<Rightarrow> color \<Rightarrow> side \<Rightarrow> castling_rights" where
  "clearRight cr c s =
     (case (c, s) of
        (White, KingSide) \<Rightarrow> cr\<lparr>wK := False\<rparr>
      | (White, QueenSide) \<Rightarrow> cr\<lparr>wQ := False\<rparr>
      | (Black, KingSide) \<Rightarrow> cr\<lparr>bK := False\<rparr>
      | (Black, QueenSide) \<Rightarrow> cr\<lparr>bQ := False\<rparr>)"

text \<open>The block \<open>Update castling rights\<close> of \<open>makeMove\<close>.\<close>

definition updateCastling :: "castling_rights \<Rightarrow> move \<Rightarrow> piece \<Rightarrow> piece option \<Rightarrow> castling_rights" where
  "updateCastling cr m p captured =
     (let cr1 = (if type p = King
                 then clearRight (clearRight cr (color p) KingSide) (color p) QueenSide
                 else cr);
          cr2 = (if type p = Rook
                 then (let a = (if col (mfrom m) = 0 then clearRight cr1 (color p) QueenSide else cr1)
                       in if col (mfrom m) = 7 then clearRight a (color p) KingSide else a)
                 else cr1)
      in case captured of
           None \<Rightarrow> cr2
         | Some cp \<Rightarrow>
             (if type cp = Rook
              then (let a = (if col (mto m) = 0 then clearRight cr2 (color cp) QueenSide else cr2)
                    in if col (mto m) = 7 then clearRight a (color cp) KingSide else a)
              else cr2))"

text \<open>\<open>newState.capturedPieces[c].push(t)\<close>\<close>

definition pushCaptured :: "captured_pieces \<Rightarrow> color \<Rightarrow> piece_type \<Rightarrow> captured_pieces" where
  "pushCaptured cp c t =
     (if c = White then cp\<lparr>cap_w := cap_w cp @ [t]\<rparr> else cp\<lparr>cap_b := cap_b cp @ [t]\<rparr>)"

text \<open>
  The state of \<open>makeMove\<close> from \<open>Track captured pieces\<close> to \<open>Save move to history\<close>,
  given the board that \<open>applyMoveToBoard\<close> left.
\<close>

definition movedState :: "game_state \<Rightarrow> game_state \<Rightarrow> move \<Rightarrow> piece \<Rightarrow> piece option \<Rightarrow> board \<Rightarrow> game_state" where
  "movedState state newState m p captured b' =
     (let caps1 = (case captured of
                     None \<Rightarrow> capturedPieces newState
                   | Some cp \<Rightarrow> pushCaptured (capturedPieces newState) (color cp) (type cp));
          caps2 = (if isEnPassant m then pushCaptured caps1 (opponent (color p)) Pawn else caps1)
      in newState
           \<lparr>board := b',
            capturedPieces := caps2,
            enPassant :=
              (if type p = Pawn \<and> \<bar>int (row (mto m)) - int (row (mfrom m))\<bar> = 2
               then Some \<lparr>row = (row (mfrom m) + row (mto m)) div 2, col = col (mfrom m)\<rparr>
               else None),
            castling := updateCastling (castling newState) m p captured,
            halfMoveClock :=
              (if type p = Pawn \<or> captured \<noteq> None \<or> isEnPassant m then 0
               else halfMoveClock newState + 1),
            fullMoveNumber :=
              (if color p = Black then fullMoveNumber newState + 1 else fullMoveNumber newState),
            turn := opponent (color p),
            moveHistory := moveHistory newState @
              [\<lparr>h_move = m, h_captured = captured, prevCastling = castling state,
                prevEnPassant = enPassant state\<rparr>]\<rparr>)"

text \<open>
  The end of \<open>makeMove\<close>, from \<open>Check for check/checkmate/stalemate\<close>: the mover's
  colour, the notation so far, the opponent's legal moves and whether the opponent is in
  check decide the flags and the last notation.
\<close>

definition adjudicate :: "game_state \<Rightarrow> color \<Rightarrow> string \<Rightarrow> move list \<Rightarrow> bool \<Rightarrow> game_state" where
  "adjudicate st mover notation opponentMoves inCheck =
     (let st1 = (if length opponentMoves = 0 then
                   (if inCheck
                    then st\<lparr>gameOver := True,
                            result := Some (if mover = White then WhiteWins else BlackWins)\<rparr>
                    else st\<lparr>gameOver := True, result := Some Draw\<rparr>)
                 else st);
          finalNotation = (if length opponentMoves = 0 then (if inCheck then notation @ ''#'' else notation)
                           else if inCheck then notation @ ''+'' else notation);
          st2 = (if \<not> gameOver st1 \<and> isInsufficientMaterial (board st1)
                 then st1\<lparr>gameOver := True, result := Some Draw\<rparr> else st1);
          st3 = (if \<not> gameOver st2 \<and> halfMoveClock st2 \<ge> 100
                 then st2\<lparr>gameOver := True, result := Some Draw\<rparr> else st2)
      in st3\<lparr>moveNotations := moveNotations st3 @ [finalNotation]\<rparr>)"

text \<open>
  \<open>makeMove(state, move)\<close>. The outer \<open>None\<close> is a TypeError (a row of the move that the
  board does not have); \<open>Some None\<close> is the \<open>null\<close> the code returns for an empty
  origin; \<open>Some (Some s)\<close> is the new state. Every write goes to the copy that
  \<open>cloneState\<close> made.
\<close>

definition makeMove :: "game_state \<Rightarrow> move \<Rightarrow> game_state option option" where
  "makeMove state m =
     (let newState = cloneState state in
      if 8 \<le> row (mfrom m) then None
      else
        (case board newState (row (mfrom m)) (col (mfrom m)) of
           None \<Rightarrow> Some None
         | Some p \<Rightarrow>
             if 8 \<le> row (mto m) then None
             else
               (let captured = board newState (row (mto m)) (col (mto m)) in
                case getMoveNotation newState m p captured of
                  None \<Rightarrow> None
                | Some notation \<Rightarrow>
                    (case applyMoveToBoard (board newState) m of
                       None \<Rightarrow> None
                     | Some b' \<Rightarrow>
                         (let st = movedState state newState m p captured b' in
                          case getLegalMoves st (Some (turn st)) of
                            None \<Rightarrow> None
                          | Some opponentMoves \<Rightarrow>
                              Some (Some (adjudicate st (color p) notation opponentMoves
                                            (isInCheck (board st) (turn st)))))))))"

section \<open>The bot: minimax with alpha-beta pruning\<close>

definition PIECE_VALUE :: "piece_type \<Rightarrow> int" where
  "PIECE_VALUE t =
     (case t of Pawn \<Rightarrow> 100 | Knight \<Rightarrow> 320 | Bishop \<Rightarrow> 330 | Rook \<Rightarrow> 500 | Queen \<Rightarrow> 900
      | King \<Rightarrow> 20000)"

definition PST :: "piece_type \<Rightarrow> int list list" where
  "PST t =
     (case t of
        Pawn \<Rightarrow>
          [[0, 0, 0, 0, 0, 0, 0, 0],
           [50, 50, 50, 50, 50, 50, 50, 50],
           [10, 10, 20, 30, 30, 20, 10, 10],
           [5, 5, 10, 25, 25, 10, 5, 5],
           [0, 0, 0, 20, 20, 0, 0, 0],
           [5, -5, -10, 0, 0, -10, -5, 5],
           [5, 10, 10, -20, -20, 10, 10, 5],
           [0, 0, 0, 0, 0, 0, 0, 0]]
      | Knight \<Rightarrow>
          [[-50, -40, -30, -30, -30, -30, -40, -50],
           [-40, -20, 0, 0, 0, 0, -20, -40],
           [-30, 0, 10, 15, 15, 10, 0, -30],
           [-30, 5, 15, 20, 20, 15, 5, -30],
           [-30, 0, 15, 20, 20, 15, 0, -30],
           [-30, 5, 10, 15, 15, 10, 5, -30],
           [-40, -20, 0, 5, 5, 0, -20, -40],
           [-50, -40, -30, -30, -30, -30, -40, -50]]
      | Bishop \<Rightarrow>
          [[-20, -10, -10, -10, -10, -10, -10, -20],
           [-10, 0, 0, 0, 0, 0, 0, -10],
           [-10, 0, 10, 10, 10, 10, 0, -10],
           [-10, 5, 5, 10, 10, 5, 5, -10],
           [-10, 0, 5, 10, 10, 5, 0, -10],
           [-10, 10, 5, 10, 10, 5, 10, -10],
           [-10, 5, 0, 0, 0, 0, 5, -10],
           [-20, -10, -10, -10, -10, -10, -10, -20]]
      | Rook \<Rightarrow>
          [[0, 0, 0, 0, 0, 0, 0, 0],
           [5, 10, 10, 10, 10, 10, 10, 5],
           [-5, 0, 0, 0, 0, 0, 0, -5],
           [-5, 0, 0, 0, 0, 0, 0, -5],
           [-5, 0, 0, 0, 0, 0, 0, -5],
           [-5, 0, 0, 0, 0, 0, 0, -5],
           [-5, 0, 0, 0, 0, 0, 0, -5],
           [0, 0, 0, 5, 5, 0, 0, 0]]
      | Queen \<Rightarrow>
          [[-20, -10, -10, -5, -5, -10, -10, -20],
           [-10, 0, 0, 0, 0, 0, 0, -10],
           [-10, 0, 5, 5, 5, 5, 0, -10],
           [-5, 0, 5, 5, 5, 5, 0, -5],
           [0, 0, 5, 5, 5, 5, 0, -5],
           [-10, 5, 5, 5, 5, 5, 0, -10],
           [-10, 0, 5, 0, 0, 0, 0, -10],
           [-20, -10, -10, -5, -5, -10, -10, -20]]
      | King \<Rightarrow>
          [[-30, -40, -40, -50, -50, -40, -40, -30],
           [-30, -40, -40, -50, -50, -40, -40, -30],
           [-30, -40, -40, -50, -50, -40, -40, -30],
           [-30, -40, -40, -50, -50, -40, -40, -30],
           [-20, -30, -30, -40, -40, -30, -30, -20],
           [-10, -20, -20, -20, -20, -20, -20, -10],
           [20, 20, 0, 0, 0, 0, 20, 20],
           [20, 30, 10, 0, 0, 10, 30, 20]])"

definition evaluate :: "game_state \<Rightarrow> int" where
  "evaluate state =
     sum_list (map (\<lambda>(r, c).
       case board state r c of
         None \<Rightarrow> 0
       | Some p \<Rightarrow>
           (let val = PIECE_VALUE (type p);
                pstRow = (if color p = White then r else 7 - r);
                pst = PST (type p) ! pstRow ! c
            in if color p = White then val + pst else - (val + pst))) squares)"

text \<open>
  The score the comparator of \<open>orderMoves\<close> gives a move. It reads the board at the
  squares of the move without a bounds check, and the type of the piece on the origin:
  \<open>None\<close> is the TypeError. The six values are multiples of 10, so \<open>/ 10\<close> is exact.
\<close>

definition moveScore :: "game_state \<Rightarrow> move \<Rightarrow> int option" where
  "moveScore state a =
     (if 8 \<le> row (mto a) then None
      else
        (case (case board state (row (mto a)) (col (mto a)) of
                 None \<Rightarrow> Some 0
               | Some capt \<Rightarrow>
                   (if 8 \<le> row (mfrom a) then None
                    else (case board state (row (mfrom a)) (col (mfrom a)) of
                            None \<Rightarrow> None
                          | Some mover \<Rightarrow>
                              Some (PIECE_VALUE (type capt) - PIECE_VALUE (type mover) div 10)))) of
           None \<Rightarrow> None
         | Some s \<Rightarrow>
             Some (s + (case promotion a of None \<Rightarrow> 0 | Some promo \<Rightarrow> PIECE_VALUE promo))))"

text \<open>
  \<open>moves.sort((a, b) => scoreB - scoreA)\<close>: a stable sort, highest score first. The
  comparator runs only on a list of two moves or more.
\<close>

definition orderMoves :: "game_state \<Rightarrow> move list \<Rightarrow> move list option" where
  "orderMoves state moves =
     (if length moves < 2 then Some moves
      else if list_ex (\<lambda>m. moveScore state m = None) moves then None
      else Some (sort_key (\<lambda>m. - the (moveScore state m)) moves))"

text \<open>Scores are JavaScript numbers: the integers of the evaluation, and the two infinities.\<close>

datatype score = NegInf | Fin int | PosInf

instantiation score :: linorder
begin

fun less_eq_score :: "score \<Rightarrow> score \<Rightarrow> bool" where
  "less_eq_score NegInf y = True"
| "less_eq_score x PosInf = True"
| "less_eq_score (Fin a) (Fin b) = (a \<le> b)"
| "less_eq_score x y = False"

definition less_score :: "score \<Rightarrow> score \<Rightarrow> bool" where
  "less_score x y \<longleftrightarrow> x \<le> y \<and> \<not> y \<le> (x::score)"

instance
proof
  fix x y z :: score
  show "(x < y) = (x \<le> y \<and> \<not> y \<le> x)" by (simp add: less_score_def)
  show "x \<le> x" by (cases x) simp_all
  show "x \<le> y \<Longrightarrow> y \<le> z \<Longrightarrow> x \<le> z" by (cases x; cases y; cases z) simp_all
  show "x \<le> y \<Longrightarrow> y \<le> x \<Longrightarrow> x = y" by (cases x; cases y) simp_all
  show "x \<le> y \<or> y \<le> x" by (cases x; cases y) auto
qed

end

text \<open>
  \<open>minimax(state, depth, alpha, beta, maximizing)\<close> returns \<open>{ score, move }\<close>. The two
  \<open>for (const move of moves)\<close> loops are \<open>maxLoop\<close> and \<open>minLoop\<close>; they carry
  \<open>alpha\<close>, \<open>beta\<close>, \<open>maxEval\<close> (\<open>minEval\<close>) and \<open>bestMove\<close>, and take the depth
  \<open>depth - 1\<close> of the recursive call. \<open>None\<close> is a TypeError of a callee. The depth is a
  natural number (the callers pass 3 and 2).
\<close>

function minimax :: "game_state \<Rightarrow> nat \<Rightarrow> score \<Rightarrow> score \<Rightarrow> bool \<Rightarrow> (score \<times> move option) option"
  and maxLoop :: "game_state \<Rightarrow> nat \<Rightarrow> move list \<Rightarrow> score \<Rightarrow> score \<Rightarrow> score \<Rightarrow> move \<Rightarrow> (score \<times> move) option"
  and minLoop :: "game_state \<Rightarrow> nat \<Rightarrow> move list \<Rightarrow> score \<Rightarrow> score \<Rightarrow> score \<Rightarrow> move \<Rightarrow> (score \<times> move) option"
where
  "minimax state depth alpha beta maximizing =
     (if depth = 0 \<or> gameOver state then Some (Fin (evaluate state), None)
      else
        (case getLegalMoves state None of
           None \<Rightarrow> None
         | Some legal \<Rightarrow>
             (case orderMoves state legal of
                None \<Rightarrow> None
              | Some moves \<Rightarrow>
                  if length moves = 0 then
                    (if isInCheck (board state) (turn state)
                     then Some (Fin (if maximizing then -99999 + (4 - int depth)
                                     else 99999 - (4 - int depth)), None)
                     else Some (Fin 0, None))
                  else if maximizing then
                    map_option (\<lambda>(v, m). (v, Some m))
                      (maxLoop state (depth - 1) moves alpha beta NegInf (moves ! 0))
                  else
                    map_option (\<lambda>(v, m). (v, Some m))
                      (minLoop state (depth - 1) moves alpha beta PosInf (moves ! 0)))))"
| "maxLoop state d [] alpha beta maxEval bestMove = Some (maxEval, bestMove)"
| "maxLoop state d (m # ms) alpha beta maxEval bestMove =
     (case makeMove state m of
        None \<Rightarrow> None
      | Some None \<Rightarrow> maxLoop state d ms alpha beta maxEval bestMove
      | Some (Some newState) \<Rightarrow>
          (case minimax newState d alpha beta False of
             None \<Rightarrow> None
           | Some (sc, mv) \<Rightarrow>
               (let maxEval' = (if sc > maxEval then sc else maxEval);
                    bestMove' = (if sc > maxEval then m else bestMove);
                    alpha' = max alpha sc
                in if beta \<le> alpha' then Some (maxEval', bestMove')
                   else maxLoop state d ms alpha' beta maxEval' bestMove')))"
| "minLoop state d [] alpha beta minEval bestMove = Some (minEval, bestMove)"
| "minLoop state d (m # ms) alpha beta minEval bestMove =
     (case makeMove state m of
        None \<Rightarrow> None
      | Some None \<Rightarrow> minLoop state d ms alpha beta minEval bestMove
      | Some (Some newState) \<Rightarrow>
          (case minimax newState d alpha beta True of
             None \<Rightarrow> None
           | Some (sc, mv) \<Rightarrow>
               (let minEval' = (if sc < minEval then sc else minEval);
                    bestMove' = (if sc < minEval then m else bestMove);
                    beta' = min beta sc
                in if beta' \<le> alpha then Some (minEval', bestMove')
                   else minLoop state d ms alpha beta' minEval' bestMove')))"
  by pat_completeness auto
termination
  by (relation "inv_image (less_than <*lex*> less_than <*lex*> less_than)
        (\<lambda>x. case x of
           Inl (state, depth, alpha, beta, maximizing) \<Rightarrow> (depth, 1::nat, 0::nat)
         | Inr (Inl (state, d, ms, rest)) \<Rightarrow> (Suc d, 0, Suc (length ms))
         | Inr (Inr (state, d, ms, rest)) \<Rightarrow> (Suc d, 0, Suc (length ms)))")
     auto

declare minimax.simps [simp del] maxLoop.simps [simp del] minLoop.simps [simp del]

text \<open>\<open>getBestMove(state, depth)\<close>; \<open>Some None\<close> is the \<open>null\<close> move.\<close>

definition getBestMove :: "game_state \<Rightarrow> nat \<Rightarrow> move option option" where
  "getBestMove state depth =
     map_option snd (minimax state depth NegInf PosInf (turn state = White))"

text \<open>
  The same recursion with the two \<open>if (beta <= alpha) break\<close> removed: the full
  minimax over the same ordering. Without the break nothing reads \<open>alpha\<close> and
  \<open>beta\<close>, and the definition leaves them out.
\<close>

function minimaxFull :: "game_state \<Rightarrow> nat \<Rightarrow> bool \<Rightarrow> (score \<times> move option) option"
  and maxLoopFull :: "game_state \<Rightarrow> nat \<Rightarrow> move list \<Rightarrow> score \<Rightarrow> move \<Rightarrow> (score \<times> move) option"
  and minLoopFull :: "game_state \<Rightarrow> nat \<Rightarrow> move list \<Rightarrow> score \<Rightarrow> move \<Rightarrow> (score \<times> move) option"
where
  "minimaxFull state depth maximizing =
     (if depth = 0 \<or> gameOver state then Some (Fin (evaluate state), None)
      else
        (case getLegalMoves state None of
           None \<Rightarrow> None
         | Some legal \<Rightarrow>
             (case orderMoves state legal of
                None \<Rightarrow> None
              | Some moves \<Rightarrow>
                  if length moves = 0 then
                    (if isInCheck (board state) (turn state)
                     then Some (Fin (if maximizing then -99999 + (4 - int depth)
                                     else 99999 - (4 - int depth)), None)
                     else Some (Fin 0, None))
                  else if maximizing then
                    map_option (\<lambda>(v, m). (v, Some m))
                      (maxLoopFull state (depth - 1) moves NegInf (moves ! 0))
                  else
                    map_option (\<lambda>(v, m). (v, Some m))
                      (minLoopFull state (depth - 1) moves PosInf (moves ! 0)))))"
| "maxLoopFull state d [] maxEval bestMove = Some (maxEval, bestMove)"
| "maxLoopFull state d (m # ms) maxEval bestMove =
     (case makeMove state m of
        None \<Rightarrow> None
      | Some None \<Rightarrow> maxLoopFull state d ms maxEval bestMove
      | Some (Some newState) \<Rightarrow>
          (case minimaxFull newState d False of
             None \<Rightarrow> None
           | Some (sc, mv) \<Rightarrow>
               maxLoopFull state d ms (if sc > maxEval then sc else maxEval)
                 (if sc > maxEval then m else bestMove)))"
| "minLoopFull state d [] minEval bestMove = Some (minEval, bestMove)"
| "minLoopFull state d (m # ms) minEval bestMove =
     (case makeMove state m of
        None \<Rightarrow> None
      | Some None \<Rightarrow> minLoopFull state d ms minEval bestMove
      | Some (Some newState) \<Rightarrow>
          (case minimaxFull newState d True of
             None \<Rightarrow> None
           | Some (sc, mv) \<Rightarrow>
               minLoopFull state d ms (if sc < minEval then sc else minEval)
                 (if sc < minEval then m else bestMove)))"
  by pat_completeness auto
termination
  by (relation "inv_image (less_than <*lex*> less_than <*lex*> less_than)
        (\<lambda>x. case x of
           Inl (state, depth, maximizing) \<Rightarrow> (depth, 1::nat, 0::nat)
         | Inr (Inl (state, d, ms, rest)) \<Rightarrow> (Suc d, 0, Suc (length ms))
         | Inr (Inr (state, d, ms, rest)) \<Rightarrow> (Suc d, 0, Suc (length ms)))")
     auto

declare minimaxFull.simps [simp del] maxLoopFull.simps [simp del] minLoopFull.simps [simp del]

section \<open>FEN (engine.js)\<close>

text \<open>\<open>s.split(sep)\<close> for a separator of one character; the empty string gives \<open>['']\<close>.\<close>

fun splitOn :: "char \<Rightarrow> string \<Rightarrow> string list" where
  "splitOn sep [] = [[]]"
| "splitOn sep (x # xs) =
     (if x = sep then [] # splitOn sep xs
      else (case splitOn sep xs of [] \<Rightarrow> [[x]] | w # ws \<Rightarrow> (x # w) # ws))"

text \<open>\<open>xs[i]\<close> of an array: \<open>undefined\<close> (\<open>None\<close>) beyond its length.\<close>

definition nthOpt :: "'a list \<Rightarrow> nat \<Rightarrow> 'a option" where
  "nthOpt xs i = (if i < length xs then Some (xs ! i) else None)"

definition isDigit :: "char \<Rightarrow> bool" where
  "isDigit ch \<longleftrightarrow> 48 \<le> (of_char ch :: nat) \<and> (of_char ch :: nat) \<le> 57"

definition digitVal :: "char \<Rightarrow> nat" where
  "digitVal ch = of_char ch - 48"

definition toUpperCase :: "char \<Rightarrow> char" where
  "toUpperCase ch =
     (if 97 \<le> (of_char ch :: nat) \<and> (of_char ch :: nat) \<le> 122
      then char_of ((of_char ch :: nat) - 32) else ch)"

definition toLowerCase :: "char \<Rightarrow> char" where
  "toLowerCase ch =
     (if 65 \<le> (of_char ch :: nat) \<and> (of_char ch :: nat) \<le> 90
      then char_of ((of_char ch :: nat) + 32) else ch)"

text \<open>
  The type strings the engine knows. Another character would make a piece whose type is
  none of the six constants; \<open>piece_type\<close> has no value for it.
\<close>

definition typeOfLetter :: "char \<Rightarrow> piece_type option" where
  "typeOfLetter ch =
     (if ch = CHR ''P'' then Some Pawn else if ch = CHR ''N'' then Some Knight
      else if ch = CHR ''B'' then Some Bishop else if ch = CHR ''R'' then Some Rook
      else if ch = CHR ''Q'' then Some Queen else if ch = CHR ''K'' then Some King
      else None)"

text \<open>
  The inner loop of \<open>parseFEN\<close> over the characters of one rank. \<open>None\<close>: a character
  that is neither a digit nor a piece letter.
\<close>

fun parseRow :: "string \<Rightarrow> piece option list option" where
  "parseRow [] = Some []"
| "parseRow (ch # rest) =
     (if isDigit ch then map_option (\<lambda>cells. replicate (digitVal ch) None @ cells) (parseRow rest)
      else
        (case typeOfLetter (toUpperCase ch) of
           None \<Rightarrow> None
         | Some t \<Rightarrow>
             map_option
               (\<lambda>cells. Some \<lparr>color = (if ch = toUpperCase ch then White else Black), type = t\<rparr> # cells)
               (parseRow rest)))"

text \<open>The outer loop \<open>for r < 8\<close>: \<open>rows[r].length\<close> is a TypeError on a missing rank.\<close>

fun parseRows :: "string list \<Rightarrow> nat list \<Rightarrow> piece option list list option" where
  "parseRows rows [] = Some []"
| "parseRows rows (r # rs) =
     (case nthOpt rows r of
        None \<Rightarrow> None
      | Some text \<Rightarrow>
          (case parseRow text of
             None \<Rightarrow> None
           | Some cells \<Rightarrow> map_option (\<lambda>rest. cells # rest) (parseRows rows rs)))"

definition boardOfRows :: "piece option list list \<Rightarrow> board" where
  "boardOfRows rows = (\<lambda>r c. if r < length rows \<and> c < length (rows ! r) then rows ! r ! c else None)"

definition digitsVal :: "string \<Rightarrow> nat" where
  "digitsVal ds = foldl (\<lambda>acc ch. 10 * acc + digitVal ch) 0 ds"

text \<open>
  \<open>parseInt(s)\<close> on an optional sign and decimal digits, stopping at the first character
  that is no digit; \<open>None\<close> is \<open>NaN\<close>.
\<close>

definition parseInt :: "string \<Rightarrow> int option" where
  "parseInt s =
     (let neg = (case s of [] \<Rightarrow> False | ch # t \<Rightarrow> ch = CHR ''-'');
          body = (case s of [] \<Rightarrow> [] | ch # t \<Rightarrow> if ch = CHR ''-'' \<or> ch = CHR ''+'' then t else s);
          ds = takeWhile isDigit body
      in if ds = [] then None
         else Some (if neg then - int (digitsVal ds) else int (digitsVal ds)))"

text \<open>
  Where the model's \<open>parseInt\<close> is JavaScript's: no leading white space, no \<open>0x\<close>
  prefix, and at most 15 digits (a number above \<open>2^53\<close> loses digits).
\<close>

definition plainNumber :: "string \<Rightarrow> bool" where
  "plainNumber s =
     (let body = (case s of [] \<Rightarrow> [] | ch # t \<Rightarrow> if ch = CHR ''-'' \<or> ch = CHR ''+'' then t else s)
      in (case body of [] \<Rightarrow> True | ch # t \<Rightarrow> isDigit ch \<or> (32 < (of_char ch :: nat) \<and> (of_char ch :: nat) < 127))
         \<and> (case body of a # x # t \<Rightarrow> \<not> (a = CHR ''0'' \<and> (x = CHR ''x'' \<or> x = CHR ''X'')) | _ \<Rightarrow> True)
         \<and> length (takeWhile isDigit body) \<le> 15)"

record parsed_fen =
  p_board :: board
  p_turn :: color
  p_castling :: castling_rights
  p_enPassant :: "square option"
  p_halfMoveClock :: int
  p_fullMoveNumber :: int

text \<open>
  The en-passant field: \<open>{ col: parts[3].charCodeAt(0) - 97, row: 8 - parseInt(parts[3][1]) }\<close>.
  The outer \<open>None\<close>: a column or row that is no array index.
\<close>

definition parseEnPassant :: "string option \<Rightarrow> square option option" where
  "parseEnPassant part =
     (case part of
        None \<Rightarrow> Some None
      | Some s \<Rightarrow>
          if s = [] \<or> s = ''-'' then Some None
          else
            (case s of
               f # d # t \<Rightarrow>
                 (if 97 \<le> (of_char f :: nat) \<and> isDigit d \<and> digitVal d \<le> 8
                  then Some (Some \<lparr>row = 8 - digitVal d, col = (of_char f :: nat) - 97\<rparr>)
                  else None)
             | _ \<Rightarrow> None))"

text \<open>
  \<open>parseFEN(fen)\<close>. \<open>None\<close> is a TypeError (fewer than eight ranks), or an input whose
  parse the types of the model do not hold (see \<open>parseRow\<close>, \<open>parseEnPassant\<close>,
  \<open>plainNumber\<close>).
\<close>

definition parseFEN :: "string \<Rightarrow> parsed_fen option" where
  "parseFEN fen =
     (let parts = splitOn CHR '' '' fen;
          rows = splitOn CHR ''/'' (parts ! 0);
          castleStr = (case nthOpt parts 2 of None \<Rightarrow> ''KQkq'' | Some s \<Rightarrow> if s = [] then ''KQkq'' else s)
      in case parseRows rows [0..<8] of
           None \<Rightarrow> None
         | Some cells \<Rightarrow>
             (case parseEnPassant (nthOpt parts 3) of
                None \<Rightarrow> None
              | Some ep \<Rightarrow>
                  if \<not> (case nthOpt parts 4 of None \<Rightarrow> True | Some s \<Rightarrow> plainNumber s)
                     \<or> \<not> (case nthOpt parts 5 of None \<Rightarrow> True | Some s \<Rightarrow> plainNumber s)
                  then None
                  else
                    Some \<lparr>p_board = boardOfRows cells,
                          p_turn = (case nthOpt parts 1 of
                                      None \<Rightarrow> White
                                    | Some s \<Rightarrow> if s = [] \<or> s = ''w'' then White else Black),
                          p_castling =
                            \<lparr>wK = CHR ''K'' \<in> set castleStr, wQ = CHR ''Q'' \<in> set castleStr,
                             bK = CHR ''k'' \<in> set castleStr, bQ = CHR ''q'' \<in> set castleStr\<rparr>,
                          p_enPassant = ep,
                          p_halfMoveClock =
                            (case Option.bind (nthOpt parts 4) parseInt of
                               None \<Rightarrow> 0 | Some n \<Rightarrow> if n = 0 then 0 else n),
                          p_fullMoveNumber =
                            (case Option.bind (nthOpt parts 5) parseInt of
                               None \<Rightarrow> 1 | Some n \<Rightarrow> if n = 0 then 1 else n)\<rparr>))"

definition stateFromFEN :: "string \<Rightarrow> game_state option" where
  "stateFromFEN fen =
     map_option (\<lambda>parsed.
       \<lparr>board = p_board parsed,
        turn = p_turn parsed,
        castling = p_castling parsed,
        enPassant = p_enPassant parsed,
        halfMoveClock = p_halfMoveClock parsed,
        fullMoveNumber = p_fullMoveNumber parsed,
        moveHistory = [],
        capturedPieces = \<lparr>cap_w = [], cap_b = []\<rparr>,
        moveNotations = [],
        gameOver = False,
        result = None\<rparr>) (parseFEN fen)"

text \<open>The inner loop of \<open>boardToFEN\<close> over the cells of a row, with its counter \<open>empty\<close> (\<open>emptyCount\<close>).\<close>

fun fenRow :: "piece option list \<Rightarrow> nat \<Rightarrow> string" where
  "fenRow [] emptyCount = (if emptyCount > 0 then showNat emptyCount else [])"
| "fenRow (None # cells) emptyCount = fenRow cells (emptyCount + 1)"
| "fenRow (Some p # cells) emptyCount =
     (if emptyCount > 0 then showNat emptyCount else [])
     @ (if color p = White then pieceLetter (type p) else toLowerCase (pieceLetter (type p)))
     # fenRow cells 0"

definition boardToFEN :: "game_state \<Rightarrow> string" where
  "boardToFEN state =
     concat (map (\<lambda>r. fenRow (map (board state r) [0..<8]) 0 @ (if r < 7 then ''/'' else [])) [0..<8])
     @ '' '' @ (if turn state = White then ''w'' else ''b'')
     @ '' '' @ (let castle = (if wK (castling state) then ''K'' else [])
                             @ (if wQ (castling state) then ''Q'' else [])
                             @ (if bK (castling state) then ''k'' else [])
                             @ (if bQ (castling state) then ''q'' else [])
                in if castle = [] then ''-'' else castle)
     @ (case enPassant state of
          Some ep \<Rightarrow> '' '' @ colLetter (col ep) # showInt (8 - int (row ep))
        | None \<Rightarrow> '' -'')
     @ '' '' @ showInt (halfMoveClock state) @ '' '' @ showInt (fullMoveNumber state)"

text \<open>
  A well-formed FEN string: six fields separated by single spaces; eight ranks of piece
  letters and digits 1 to 8, no two digits side by side, eight squares each; the active
  colour; the castling letters in the order \<open>KQkq\<close> or a hyphen; a hyphen or a square as
  en-passant target; two decimal numbers without leading zeros, the move number at least 1.
\<close>

fun rankWidth :: "string \<Rightarrow> nat" where
  "rankWidth [] = 0"
| "rankWidth (ch # rest) = (if isDigit ch then digitVal ch else 1) + rankWidth rest"

fun wfRankChars :: "string \<Rightarrow> bool" where
  "wfRankChars [] = True"
| "wfRankChars (ch # rest) =
     ((if isDigit ch then 1 \<le> digitVal ch \<and> digitVal ch \<le> 8
                          \<and> (case rest of [] \<Rightarrow> True | x # t \<Rightarrow> \<not> isDigit x)
       else ch \<in> set ''PNBRQKpnbrqk'')
      \<and> wfRankChars rest)"

definition wfRank :: "string \<Rightarrow> bool" where
  "wfRank s \<longleftrightarrow> wfRankChars s \<and> rankWidth s = 8"

definition wfNumber :: "string \<Rightarrow> bool" where
  "wfNumber s \<longleftrightarrow>
     s \<noteq> [] \<and> list_all isDigit s \<and> (s = ''0'' \<or> hd s \<noteq> CHR ''0'') \<and> length s \<le> 15"

definition wf_fen :: "string \<Rightarrow> bool" where
  "wf_fen fen =
     (case splitOn CHR '' '' fen of
        [placement, active, castle, ep, half, full] \<Rightarrow>
          (let rows = splitOn CHR ''/'' placement in length rows = 8 \<and> list_all wfRank rows)
          \<and> (active = ''w'' \<or> active = ''b'')
          \<and> (castle = ''-'' \<or> (castle \<noteq> [] \<and> List.member (subseqs ''KQkq'') castle))
          \<and> (ep = ''-'' \<or> (case ep of [f, d] \<Rightarrow> List.member ''abcdefgh'' f \<and> List.member ''12345678'' d
                                       | _ \<Rightarrow> False))
          \<and> wfNumber half \<and> wfNumber full \<and> full \<noteq> ''0''
      | _ \<Rightarrow> False)"

section \<open>The first statements of \<open>makeMove\<close> on a heap of objects\<close>

text \<open>
  The functions above work on values, so they cannot tell what a call does to the objects
  it was handed. For the statements of \<open>makeMove\<close> up to \<open>if (!piece) return null\<close>,
  and for \<open>cloneBoard\<close> and \<open>cloneState\<close> that they call, the objects are kept on a
  heap: a state object holds the addresses of its board array, castling object,
  en-passant square, history array, captured-pieces object and notation array; the board
  array holds the addresses of its row arrays; a row array holds, cell by cell, \<open>null\<close>
  or the address of a piece object; the captured-pieces object holds the addresses of its
  two arrays. The records of the move history, the piece types and the notation strings
  are kept in their arrays as values: the statements modelled here copy those arrays, not
  their elements. The fields of \<open>StateObj\<close> are those of the state object in the order
  of its literal: board, turn, castling, enPassant, halfMoveClock, fullMoveNumber,
  moveHistory, capturedPieces, moveNotations, gameOver, result.
\<close>

datatype obj =
    PieceObj piece
  | RowArr "nat option list"
  | BoardArr "nat list"
  | CastlingObj castling_rights
  | SquareObj square
  | HistoryArr "history_entry list"
  | TypesArr "piece_type list"
  | CapturedObj nat nat
  | NotationsArr "string list"
  | StateObj nat color nat "nat option" int int nat nat nat bool "game_result option"

text \<open>
  An address is an index of the heap. An object or array literal, a spread and \<open>map\<close>
  allocate: the new object goes to the end of the heap.
\<close>

type_synonym heap = "obj list"

definition alloc :: "heap \<Rightarrow> obj \<Rightarrow> heap \<times> nat" where
  "alloc h x = (h @ [x], length h)"

text \<open>Following a reference; \<open>None\<close> for an address the heap does not hold.\<close>

definition deref :: "heap \<Rightarrow> nat \<Rightarrow> obj option" where
  "deref h a = (if a < length h then Some (h ! a) else None)"

text \<open>
  \<open>{ ...x }\<close> and \<open>[...x]\<close>: a new object with the fields (the elements) of \<open>x\<close>.
  In this and the functions below \<open>None\<close> is the answer on a heap that does not hold
  the objects the code reads (an address outside the heap, an object of another kind).
\<close>

definition spread :: "heap \<Rightarrow> nat \<Rightarrow> (heap \<times> nat) option" where
  "spread h a = map_option (alloc h) (deref h a)"

text \<open>\<open>row.map(cell => cell ? { ...cell } : null)\<close>, on the cells of the row.\<close>

fun cloneCells :: "heap \<Rightarrow> nat option list \<Rightarrow> (heap \<times> nat option list) option" where
  "cloneCells h [] = Some (h, [])"
| "cloneCells h (None # cells) =
     (case cloneCells h cells of
        None \<Rightarrow> None
      | Some (h', cells') \<Rightarrow> Some (h', None # cells'))"
| "cloneCells h (Some a # cells) =
     (case spread h a of
        None \<Rightarrow> None
      | Some (h1, a') \<Rightarrow>
          (case cloneCells h1 cells of
             None \<Rightarrow> None
           | Some (h', cells') \<Rightarrow> Some (h', Some a' # cells')))"

text \<open>
  \<open>board.map(row => row.map(\<dots>))\<close>, on the rows of the board; \<open>None\<close> where \<open>row\<close>
  is no array.
\<close>

fun cloneRows :: "heap \<Rightarrow> nat list \<Rightarrow> (heap \<times> nat list) option" where
  "cloneRows h [] = Some (h, [])"
| "cloneRows h (r # rows) =
     (case deref h r of
        Some (RowArr cells) \<Rightarrow>
          (case cloneCells h cells of
             None \<Rightarrow> None
           | Some (h1, cells') \<Rightarrow>
               (let (h2, r') = alloc h1 (RowArr cells') in
                case cloneRows h2 rows of
                  None \<Rightarrow> None
                | Some (h', rows') \<Rightarrow> Some (h', r' # rows')))
      | _ \<Rightarrow> None)"

definition cloneBoardH :: "heap \<Rightarrow> nat \<Rightarrow> (heap \<times> nat) option" where
  "cloneBoardH h b =
     (case deref h b of
        Some (BoardArr rows) \<Rightarrow>
          (case cloneRows h rows of
             None \<Rightarrow> None
           | Some (h', rows') \<Rightarrow> Some (alloc h' (BoardArr rows')))
      | _ \<Rightarrow> None)"

text \<open>\<open>state.enPassant ? { ...state.enPassant } : null\<close>.\<close>

definition cloneEnPassantH :: "heap \<Rightarrow> nat option \<Rightarrow> (heap \<times> nat option) option" where
  "cloneEnPassantH h e =
     (case e of
        None \<Rightarrow> Some (h, None)
      | Some a \<Rightarrow> (case spread h a of None \<Rightarrow> None | Some (h', a') \<Rightarrow> Some (h', Some a')))"

text \<open>\<open>{ w: [...state.capturedPieces.w], b: [...state.capturedPieces.b] }\<close>.\<close>

definition cloneCapturedH :: "heap \<Rightarrow> nat \<Rightarrow> (heap \<times> nat) option" where
  "cloneCapturedH h cap =
     (case deref h cap of
        Some (CapturedObj w b) \<Rightarrow>
          (case spread h w of
             None \<Rightarrow> None
           | Some (h1, w') \<Rightarrow>
               (case spread h1 b of
                  None \<Rightarrow> None
                | Some (h2, b') \<Rightarrow> Some (alloc h2 (CapturedObj w' b'))))
      | _ \<Rightarrow> None)"

text \<open>
  \<open>cloneState(state)\<close>: the fields of the object literal in their order, then the
  object itself. It returns the heap after the allocations and the address of the copy.
\<close>

definition cloneStateH :: "heap \<Rightarrow> nat \<Rightarrow> (heap \<times> nat) option" where
  "cloneStateH h state =
     (case deref h state of
        Some (StateObj b t c e hm fm hist cap nots go res) \<Rightarrow>
          (case cloneBoardH h b of None \<Rightarrow> None | Some (h1, b') \<Rightarrow>
          (case spread h1 c of None \<Rightarrow> None | Some (h2, c') \<Rightarrow>
          (case cloneEnPassantH h2 e of None \<Rightarrow> None | Some (h3, e') \<Rightarrow>
          (case spread h3 hist of None \<Rightarrow> None | Some (h4, hist') \<Rightarrow>
          (case cloneCapturedH h4 cap of None \<Rightarrow> None | Some (h5, cap') \<Rightarrow>
          (case spread h5 nots of None \<Rightarrow> None | Some (h6, nots') \<Rightarrow>
             Some (alloc h6 (StateObj b' t c' e' hm fm hist' cap' nots' go res))))))))
      | _ \<Rightarrow> None)"

text \<open>
  \<open>newState.board[move.from.row][move.from.col]\<close>: the outer \<open>None\<close> is the TypeError
  of indexing a row that the board does not have, \<open>Some None\<close> is \<open>null\<close> or
  \<open>undefined\<close>, \<open>Some (Some a)\<close> the address of a piece.
\<close>

definition originPiece :: "heap \<Rightarrow> nat \<Rightarrow> move \<Rightarrow> nat option option" where
  "originPiece h newState m =
     (case deref h newState of
        Some (StateObj b t c e hm fm hist cap nots go res) \<Rightarrow>
          (case deref h b of
             Some (BoardArr rows) \<Rightarrow>
               (case nthOpt rows (row (mfrom m)) of
                  None \<Rightarrow> None
                | Some r \<Rightarrow>
                    (case deref h r of
                       Some (RowArr cells) \<Rightarrow>
                         (case nthOpt cells (col (mfrom m)) of
                            None \<Rightarrow> Some None
                          | Some piece \<Rightarrow> Some piece)
                     | _ \<Rightarrow> None))
           | _ \<Rightarrow> None)
      | _ \<Rightarrow> None)"

text \<open>
  \<open>makeMove\<close> as far as \<open>if (!piece) return null\<close>: the heap at that point, and
  whether the function has returned \<open>null\<close> there or goes on with the copy and the
  piece. \<open>None\<close> is a fault.
\<close>

datatype entry = ReturnNull | Continue nat nat

definition makeMoveEntry :: "heap \<Rightarrow> nat \<Rightarrow> move \<Rightarrow> (heap \<times> entry) option" where
  "makeMoveEntry h state m =
     (case cloneStateH h state of
        None \<Rightarrow> None
      | Some (h1, newState) \<Rightarrow>
          (case originPiece h1 newState m of
             None \<Rightarrow> None
           | Some None \<Rightarrow> Some (h1, ReturnNull)
           | Some (Some piece) \<Rightarrow> Some (h1, Continue newState piece)))"

section \<open>Auxiliary definitions for the proofs\<close>

text \<open>What the generator guarantees of a move: rows on the board, origin at the square.\<close>

definition fromSquare :: "nat \<Rightarrow> nat \<Rightarrow> move \<Rightarrow> bool" where
  "fromSquare r k m \<longleftrightarrow> mfrom m = \<lparr>row = r, col = k\<rparr> \<and> row (mto m) < 8 \<and> col (mto m) < 8"

text \<open>Positions for the concrete instances below.\<close>

definition emptyRights :: castling_rights where
  "emptyRights = \<lparr>wK = False, wQ = False, bK = False, bQ = False\<rparr>"

definition stateOf :: "board \<Rightarrow> color \<Rightarrow> game_state" where
  "stateOf b c =
     \<lparr>board = b, turn = c, castling = emptyRights, enPassant = None, halfMoveClock = 0,
      fullMoveNumber = 1, moveHistory = [], capturedPieces = \<lparr>cap_w = [], cap_b = []\<rparr>,
      moveNotations = [], gameOver = False, result = None\<rparr>"

text \<open>A white rook on c5 and a black pawn on a1; no king.\<close>

definition kingless :: board where
  "kingless = boardOfRows
     [[], [], [], [None, None, Some \<lparr>color = White, type = Rook\<rparr>], [], [], [],
      [Some \<lparr>color = Black, type = Pawn\<rparr>]]"

text \<open>White: Ke1, Re2 (pinned); Black: Ka8, Re8.\<close>

definition pinned :: board where
  "pinned = boardOfRows
     [[Some \<lparr>color = Black, type = King\<rparr>, None, None, None, Some \<lparr>color = Black, type = Rook\<rparr>],
      [], [], [], [], [],
      [None, None, None, None, Some \<lparr>color = White, type = Rook\<rparr>],
      [None, None, None, None, Some \<lparr>color = White, type = King\<rparr>]]"

text \<open>White: Ke1; Black: Ke8, pawn a7.\<close>

definition pawnEnding :: board where
  "pawnEnding = boardOfRows
     [[None, None, None, None, Some \<lparr>color = Black, type = King\<rparr>],
      [Some \<lparr>color = Black, type = Pawn\<rparr>],
      [], [], [], [], [],
      [None, None, None, None, Some \<lparr>color = White, type = King\<rparr>]]"

text \<open>White: pawn e5, rook h5; Black: pawn f5.\<close>

definition fifthRank :: board where
  "fifthRank = boardOfRows
     [[], [], [],
      [None, None, None, None, Some \<lparr>color = White, type = Pawn\<rparr>,
       Some \<lparr>color = Black, type = Pawn\<rparr>, None, Some \<lparr>color = White, type = Rook\<rparr>],
      [], [], [], []]"

text \<open>
  \<open>4k3/8/8/8/R7/8/8/R3K3 w Q\<close>: White's king and a-rook have not moved; the other white
  rook stands on a4.
\<close>

definition twoRooks :: game_state where
  "twoRooks = (stateOf (boardOfRows
     [[None, None, None, None, Some \<lparr>color = Black, type = King\<rparr>],
      [], [], [],
      [Some \<lparr>color = White, type = Rook\<rparr>],
      [], [],
      [Some \<lparr>color = White, type = Rook\<rparr>, None, None, None,
       Some \<lparr>color = White, type = King\<rparr>]]) White)
     \<lparr>castling := \<lparr>wK = False, wQ = True, bK = False, bQ = False\<rparr>, fullMoveNumber := 40\<rparr>"

text \<open>White: Ke1, Bc1; Black: Ke8, Bf8 (both bishops on dark squares); the game is on.\<close>

definition bishopsLive :: game_state where
  "bishopsLive = stateOf (boardOfRows
     [[None, None, None, None, Some \<lparr>color = Black, type = King\<rparr>,
       Some \<lparr>color = Black, type = Bishop\<rparr>],
      [], [], [], [], [], [],
      [None, None, Some \<lparr>color = White, type = Bishop\<rparr>, None,
       Some \<lparr>color = White, type = King\<rparr>]]) White"

text \<open>
  What a search with the window \<open>(a, b)\<close> tells about the full value \<open>u\<close> when it
  returns \<open>v\<close>: exact inside the window, a bound outside.
\<close>

definition agrees :: "score \<Rightarrow> score \<Rightarrow> score \<Rightarrow> score \<Rightarrow> bool" where
  "agrees a b v u \<longleftrightarrow> (v \<le> a \<longrightarrow> u \<le> v) \<and> (a < v \<and> v < b \<longrightarrow> u = v) \<and> (b \<le> v \<longrightarrow> v \<le> u)"

text \<open>The pawn ending after 100 plies without a pawn move or capture: drawn, and over.\<close>

definition fiftyMoves :: game_state where
  "fiftyMoves = (stateOf pawnEnding White)
     \<lparr>halfMoveClock := 100, fullMoveNumber := 90, gameOver := True, result := Some Draw\<rparr>"

text \<open>The inverse of \<open>splitOn\<close>: \<open>parts.join(sep)\<close>.\<close>

fun joinWith :: "char \<Rightarrow> string list \<Rightarrow> string" where
  "joinWith sep [] = []"
| "joinWith sep [a] = a"
| "joinWith sep (a # b # r) = a @ sep # joinWith sep (b # r)"

text \<open>The castling field that \<open>boardToFEN\<close> writes for the rights read from a field.\<close>

definition castleOut :: "string \<Rightarrow> string" where
  "castleOut s =
     (let castle = (if CHR ''K'' \<in> set s then ''K'' else [])
                   @ (if CHR ''Q'' \<in> set s then ''Q'' else [])
                   @ (if CHR ''k'' \<in> set s then ''k'' else [])
                   @ (if CHR ''q'' \<in> set s then ''q'' else [])
      in if castle = [] then ''-'' else castle)"

text \<open>
  The value that the objects at an address stand for: the cells, the rows and the board
  (an array of eight rows), the other fields, and the state. \<open>None\<close> where the heap does
  not hold objects of these shapes.
\<close>

fun cellsAt :: "heap \<Rightarrow> nat option list \<Rightarrow> piece option list option" where
  "cellsAt h [] = Some []"
| "cellsAt h (None # cells) = map_option (\<lambda>ps. None # ps) (cellsAt h cells)"
| "cellsAt h (Some a # cells) =
     (case deref h a of
        Some (PieceObj p) \<Rightarrow> map_option (\<lambda>ps. Some p # ps) (cellsAt h cells)
      | _ \<Rightarrow> None)"

fun rowsAt :: "heap \<Rightarrow> nat list \<Rightarrow> piece option list list option" where
  "rowsAt h [] = Some []"
| "rowsAt h (r # rows) =
     (case deref h r of
        Some (RowArr cells) \<Rightarrow>
          (case cellsAt h cells of
             None \<Rightarrow> None
           | Some ps \<Rightarrow> map_option (\<lambda>rest. ps # rest) (rowsAt h rows))
      | _ \<Rightarrow> None)"

definition boardAt :: "heap \<Rightarrow> nat \<Rightarrow> board option" where
  "boardAt h b =
     (case deref h b of
        Some (BoardArr rows) \<Rightarrow>
          (if length rows = 8 then map_option boardOfRows (rowsAt h rows) else None)
      | _ \<Rightarrow> None)"

definition castlingAt :: "heap \<Rightarrow> nat \<Rightarrow> castling_rights option" where
  "castlingAt h a = (case deref h a of Some (CastlingObj c) \<Rightarrow> Some c | _ \<Rightarrow> None)"

definition enPassantAt :: "heap \<Rightarrow> nat option \<Rightarrow> square option option" where
  "enPassantAt h e =
     (case e of
        None \<Rightarrow> Some None
      | Some a \<Rightarrow> (case deref h a of Some (SquareObj q) \<Rightarrow> Some (Some q) | _ \<Rightarrow> None))"

definition historyAt :: "heap \<Rightarrow> nat \<Rightarrow> history_entry list option" where
  "historyAt h a = (case deref h a of Some (HistoryArr es) \<Rightarrow> Some es | _ \<Rightarrow> None)"

definition typesAt :: "heap \<Rightarrow> nat \<Rightarrow> piece_type list option" where
  "typesAt h a = (case deref h a of Some (TypesArr ts) \<Rightarrow> Some ts | _ \<Rightarrow> None)"

definition capturedAt :: "heap \<Rightarrow> nat \<Rightarrow> captured_pieces option" where
  "capturedAt h a =
     (case deref h a of
        Some (CapturedObj w bl) \<Rightarrow>
          (case typesAt h w of
             None \<Rightarrow> None
           | Some ws \<Rightarrow>
               (case typesAt h bl of
                  None \<Rightarrow> None
                | Some bs \<Rightarrow> Some \<lparr>cap_w = ws, cap_b = bs\<rparr>))
      | _ \<Rightarrow> None)"

definition notationsAt :: "heap \<Rightarrow> nat \<Rightarrow> string list option" where
  "notationsAt h a = (case deref h a of Some (NotationsArr ns) \<Rightarrow> Some ns | _ \<Rightarrow> None)"

definition stateAt :: "heap \<Rightarrow> nat \<Rightarrow> game_state option" where
  "stateAt h a =
     (case deref h a of
        Some (StateObj b t c e hm fm hist cap nots go res) \<Rightarrow>
          (case boardAt h b of None \<Rightarrow> None | Some bd \<Rightarrow>
          (case castlingAt h c of None \<Rightarrow> None | Some cr \<Rightarrow>
          (case enPassantAt h e of None \<Rightarrow> None | Some ep \<Rightarrow>
          (case historyAt h hist of None \<Rightarrow> None | Some es \<Rightarrow>
          (case capturedAt h cap of None \<Rightarrow> None | Some cp \<Rightarrow>
          (case notationsAt h nots of None \<Rightarrow> None | Some ns \<Rightarrow>
             Some \<lparr>board = bd, turn = t, castling = cr, enPassant = ep, halfMoveClock = hm,
                   fullMoveNumber = fm, moveHistory = es, capturedPieces = cp,
                   moveNotations = ns, gameOver = go, result = res\<rparr>))))))
      | _ \<Rightarrow> None)"

text \<open>
  The heap \<open>h'\<close> holds every object of \<open>h\<close> at its address, with the contents it has
  in \<open>h\<close>: between the two, objects were allocated and none was written.
\<close>

definition extends :: "heap \<Rightarrow> heap \<Rightarrow> bool" where
  "extends h h' \<longleftrightarrow> take (length h) h' = h"

text \<open>The position \<open>kingless\<close>, White to move, as objects; the state is at address 17.\<close>

definition kinglessHeap :: heap where
  "kinglessHeap =
     [PieceObj \<lparr>color = White, type = Rook\<rparr>,
      PieceObj \<lparr>color = Black, type = Pawn\<rparr>,
      RowArr [None, None, None, None, None, None, None, None],
      RowArr [None, None, None, None, None, None, None, None],
      RowArr [None, None, None, None, None, None, None, None],
      RowArr [None, None, Some 0, None, None, None, None, None],
      RowArr [None, None, None, None, None, None, None, None],
      RowArr [None, None, None, None, None, None, None, None],
      RowArr [None, None, None, None, None, None, None, None],
      RowArr [Some 1, None, None, None, None, None, None, None],
      BoardArr [2, 3, 4, 5, 6, 7, 8, 9],
      CastlingObj emptyRights,
      HistoryArr [],
      TypesArr [],
      TypesArr [],
      CapturedObj 13 14,
      NotationsArr [],
      StateObj 10 White 11 None 0 1 12 15 16 False None]"

section \<open>Properties of the rules engine\<close>

subsection \<open>Copies\<close>

lemma opponent_neq: "opponent c \<noteq> c"
  by (cases c) (simp_all add: opponent_def)

lemma cloneBoard_id [simp]: "cloneBoard b = b"
  by (auto simp: cloneBoard_def fun_eq_iff split: option.splits)

lemma cloneState_id [simp]: "cloneState s = s"
  by (cases "enPassant s") (simp_all add: cloneState_def)

lemma squares_bound: "(r, k) \<in> set squares \<Longrightarrow> r < 8 \<and> k < 8"
  by (auto simp: squares_def)

lemma sq_bounds: "inBounds r k \<Longrightarrow> row (sq r k) < 8 \<and> col (sq r k) < 8"
  by (auto simp: inBounds_def sq_def)

lemma fromSquare_plain: "inBounds a b \<Longrightarrow> fromSquare r k (plainMove \<lparr>row = r, col = k\<rparr> (sq a b))"
  by (simp add: fromSquare_def plainMove_def sq_bounds)

lemma fromSquare_promo: "inBounds a b \<Longrightarrow> fromSquare r k (promoMove \<lparr>row = r, col = k\<rparr> (sq a b) t)"
  by (simp add: fromSquare_def plainMove_def promoMove_def sq_bounds)

lemma fromSquare_ep: "inBounds a b \<Longrightarrow> fromSquare r k (epMove \<lparr>row = r, col = k\<rparr> (sq a b))"
  by (simp add: fromSquare_def plainMove_def epMove_def sq_bounds)

lemma slideRay_from:
  "m \<in> set (slideRay b c \<lparr>row = r, col = k\<rparr> dr dc r' k') \<Longrightarrow> fromSquare r k m"
proof (induction b c "\<lparr>row = r, col = k\<rparr>" dr dc r' k' rule: slideRay.induct)
  case (1 b c dr dc r' k')
  show ?case
  proof (cases "inBounds r' k' \<and> (dr \<noteq> 0 \<or> dc \<noteq> 0)")
    case True
    then show ?thesis
      using 1 by (cases "cell b r' k'") (auto simp: fromSquare_plain slideRay.simps[of b c _ dr dc r' k'] split: if_splits)
  next
    case False
    then show ?thesis using 1(2) by (simp add: slideRay.simps[of b c _ dr dc r' k'])
  qed
qed

lemma slideMoves_from: "m \<in> set (slideMoves b c \<lparr>row = r, col = k\<rparr> dirs) \<Longrightarrow> fromSquare r k m"
  by (auto simp: slideMoves_def dest: slideRay_from)

lemma stepMoves_from: "m \<in> set (stepMoves b c \<lparr>row = r, col = k\<rparr> offs) \<Longrightarrow> fromSquare r k m"
  by (auto simp: stepMoves_def Let_def fromSquare_plain split: if_splits option.splits)

lemma pawnTo_from:
  "inBounds nr nc \<Longrightarrow> m \<in> set (pawnTo \<lparr>row = r, col = k\<rparr> pr nr nc) \<Longrightarrow> fromSquare r k m"
  by (auto simp: pawnTo_def fromSquare_plain fromSquare_promo split: if_splits)

lemma pawnMoves_from:
  assumes "m \<in> set (pawnMoves s c r k)" "r < 8" "k < 8"
  shows "fromSquare r k m"
proof -
  have dbl: "inBounds (int r + 2 * (if c = White then -1 else 1)) (int k)"
    if "int r = (if c = White then 6 else 1)"
    using that assms(3) by (auto simp: inBounds_def split: if_splits)
  show ?thesis
    using assms(1) dbl
    by (auto simp: pawnMoves_def Let_def fromSquare_plain fromSquare_ep
             dest: pawnTo_from split: if_splits option.splits)
qed

lemma castlingMoves_from: "m \<in> set (castlingMoves s c r k) \<Longrightarrow> fromSquare r k m"
  by (auto simp: castlingMoves_def Let_def fromSquare_def castleMove_def plainMove_def
           split: if_splits)

lemma pieceMoves_from:
  assumes "m \<in> set (pieceMoves s c r k)" "r < 8" "k < 8"
  shows "fromSquare r k m \<and> (\<exists>p. board s r k = Some p \<and> color p = c)"
proof -
  from assms(1) have "\<exists>p. board s r k = Some p \<and> color p = c"
    by (cases "board s r k") (auto simp: pieceMoves_def split: if_splits)
  then obtain p where p: "board s r k = Some p" "color p = c" by blast
  have "fromSquare r k m"
    using assms p
    by (cases "type p")
       (auto simp: pieceMoves_def Let_def
             dest: pawnMoves_from stepMoves_from slideMoves_from castlingMoves_from)
  with p show ?thesis by blast
qed

lemma getPseudoMoves_wf:
  assumes "m \<in> set (getPseudoMoves s c)"
  shows "row (mfrom m) < 8 \<and> col (mfrom m) < 8 \<and> row (mto m) < 8 \<and> col (mto m) < 8
         \<and> (\<exists>p. board s (row (mfrom m)) (col (mfrom m)) = Some p \<and> color p = c)"
proof -
  from assms obtain r k where rk: "(r, k) \<in> set squares" "m \<in> set (pieceMoves s c r k)"
    by (auto simp: getPseudoMoves_def)
  then have b: "r < 8" "k < 8" using squares_bound by auto
  from pieceMoves_from[OF rk(2) b] show ?thesis using b by (auto simp: fromSquare_def)
qed


lemma applyMoveToBoard_Some_iff:
  "(\<exists>b'. applyMoveToBoard b m = Some b') \<longleftrightarrow>
     row (mfrom m) < 8 \<and> row (mto m) < 8
     \<and> (promotion m \<noteq> None \<longrightarrow> b (row (mfrom m)) (col (mfrom m)) \<noteq> None)"
  by (auto simp: applyMoveToBoard_def Let_def split: option.splits)

lemma legalLoop_total:
  assumes "\<And>m. m \<in> set ms \<Longrightarrow> \<exists>b'. applyMoveToBoard b m = Some b'"
  shows "\<exists>l. legalLoop b c ms = Some l"
  using assms
proof (induction ms)
  case Nil
  show ?case by simp
next
  case (Cons m ms)
  then obtain l where l: "legalLoop b c ms = Some l" by auto
  from Cons.prems obtain b' where "applyMoveToBoard b m = Some b'" by auto
  with l show ?case by simp
qed

lemma legalLoop_sound:
  "legalLoop b c ms = Some l \<Longrightarrow> m \<in> set l \<Longrightarrow>
     m \<in> set ms \<and> (\<exists>b'. applyMoveToBoard (cloneBoard b) m = Some b' \<and> \<not> isInCheck b' c)"
proof (induction ms arbitrary: l)
  case Nil
  then show ?case by simp
next
  case (Cons x xs)
  show ?case
  proof (cases "castlingBlocked b c x")
    case True
    with Cons show ?thesis by auto
  next
    case False
    with Cons.prems(1) obtain nb rest where
      nb: "applyMoveToBoard (cloneBoard b) x = Some nb" and
      rest: "legalLoop b c xs = Some rest" and
      l: "l = (if \<not> isInCheck nb c then x # rest else rest)"
      by (auto split: option.splits)
    show ?thesis
    proof (cases "m \<in> set rest")
      case True
      from Cons.IH[OF rest True] show ?thesis by auto
    next
      case False
      with l Cons.prems(2) have "m = x" "\<not> isInCheck nb c" by (auto split: if_splits)
      with nb show ?thesis by auto
    qed
  qed
qed

lemma pseudo_applies:
  assumes "m \<in> set (getPseudoMoves s c)"
  shows "\<exists>b'. applyMoveToBoard (board s) m = Some b'"
  using getPseudoMoves_wf[OF assms] by (subst applyMoveToBoard_Some_iff) auto

lemma getLegalMoves_total: "\<exists>l. getLegalMoves s co = Some l"
  unfolding getLegalMoves_def Let_def by (rule legalLoop_total) (rule pseudo_applies)

lemma getLegalMoves_pseudo:
  assumes "getLegalMoves s co = Some l" "m \<in> set l"
  shows "m \<in> set (getPseudoMoves s (case co of None \<Rightarrow> turn s | Some c \<Rightarrow> c))"
  using assms legalLoop_sound unfolding getLegalMoves_def Let_def by blast

lemma samePieceMoves_total:
  assumes "\<And>m. m \<in> set ms \<Longrightarrow> row (mfrom m) < 8"
  shows "\<exists>l. samePieceMoves s mv p ms = Some l"
  using assms
proof (induction ms)
  case Nil
  show ?case by simp
next
  case (Cons m ms)
  then obtain l where "samePieceMoves s mv p ms = Some l" by auto
  moreover from Cons.prems have "row (mfrom m) < 8" by simp
  ultimately show ?case by simp
qed

lemma getMoveNotation_total: "\<exists>n. getMoveNotation s mv p cap = Some n"
proof -
  obtain l where "samePieceMoves s mv p (getPseudoMoves s (color p)) = Some l"
    using samePieceMoves_total[of "getPseudoMoves s (color p)" s mv p] getPseudoMoves_wf by blast
  then show ?thesis
    by (auto simp: getMoveNotation_def split: option.splits side.splits)
qed

lemma adjudicate_fields [simp]:
  "turn (adjudicate st c n oms ic) = turn st"
  "board (adjudicate st c n oms ic) = board st"
  "castling (adjudicate st c n oms ic) = castling st"
  "enPassant (adjudicate st c n oms ic) = enPassant st"
  "halfMoveClock (adjudicate st c n oms ic) = halfMoveClock st"
  by (simp_all add: adjudicate_def Let_def)

lemma movedState_fields [simp]:
  "turn (movedState s ns m p cap b') = opponent (color p)"
  "board (movedState s ns m p cap b') = b'"
  "castling (movedState s ns m p cap b') = updateCastling (castling ns) m p cap"
  "gameOver (movedState s ns m p cap b') = gameOver ns"
  "result (movedState s ns m p cap b') = result ns"
  by (simp_all add: movedState_def Let_def)

lemma makeMove_cases:
  assumes "makeMove s m = Some (Some s')"
  obtains p b' ntn oms where
    "row (mfrom m) < 8" "row (mto m) < 8"
    "board s (row (mfrom m)) (col (mfrom m)) = Some p"
    "getMoveNotation s m p (board s (row (mto m)) (col (mto m))) = Some ntn"
    "applyMoveToBoard (board s) m = Some b'"
    "getLegalMoves (movedState s s m p (board s (row (mto m)) (col (mto m))) b')
       (Some (opponent (color p))) = Some oms"
    "s' = adjudicate (movedState s s m p (board s (row (mto m)) (col (mto m))) b') (color p)
            ntn oms
            (isInCheck b' (opponent (color p)))"
  using assms
  by (auto simp: makeMove_def Let_def split: if_splits option.splits)

lemma makeMove_fault_iff:
  "makeMove s m = None \<longleftrightarrow>
     8 \<le> row (mfrom m)
     \<or> (board s (row (mfrom m)) (col (mfrom m)) \<noteq> None \<and> 8 \<le> row (mto m))"
proof (cases "8 \<le> row (mfrom m)")
  case True
  then show ?thesis by (simp add: makeMove_def)
next
  case False
  note rf = this
  show ?thesis
  proof (cases "board s (row (mfrom m)) (col (mfrom m))")
    case None
    with rf show ?thesis by (simp add: makeMove_def)
  next
    case (Some p)
    show ?thesis
    proof (cases "8 \<le> row (mto m)")
      case True
      with rf Some show ?thesis by (simp add: makeMove_def)
    next
      case False
      obtain n where n: "getMoveNotation s m p (board s (row (mto m)) (col (mto m))) = Some n"
        using getMoveNotation_total by blast
      obtain b' where b': "applyMoveToBoard (board s) m = Some b'"
        using applyMoveToBoard_Some_iff[of "board s" m] rf False Some by auto
      obtain l where "getLegalMoves (movedState s s m p (board s (row (mto m)) (col (mto m))) b')
          (Some (turn (movedState s s m p (board s (row (mto m)) (col (mto m))) b'))) = Some l"
        using getLegalMoves_total by blast
      with rf Some False n b' show ?thesis by (simp add: makeMove_def Let_def)
    qed
  qed
qed

lemma makeMove_null_iff:
  "makeMove s m = Some None \<longleftrightarrow>
     row (mfrom m) < 8 \<and> board s (row (mfrom m)) (col (mfrom m)) = None"
  by (auto simp: makeMove_def Let_def split: option.splits if_splits)

lemma set_squares: "set squares = {(r, k). r < 8 \<and> k < 8}"
  by (auto simp: squares_def)

lemma list_all_squares: "list_all (\<lambda>(r, k). P r k) squares \<longleftrightarrow> (\<forall>r<8. \<forall>k<8. P r k)"
  by (auto simp: list_all_iff set_squares)


lemma makeMove_succeeds:
  assumes "row (mfrom m) < 8" "row (mto m) < 8" "board s (row (mfrom m)) (col (mfrom m)) = Some p"
  shows "\<exists>s'. makeMove s m = Some (Some s')"
proof -
  from assms have "makeMove s m \<noteq> None" "makeMove s m \<noteq> Some None"
    by (simp_all add: makeMove_fault_iff makeMove_null_iff)
  then show ?thesis by (cases "makeMove s m") auto
qed

lemma makeMove_castling:
  assumes "makeMove s m = Some (Some s')"
  shows "\<exists>p. board s (row (mfrom m)) (col (mfrom m)) = Some p
           \<and> castling s' = updateCastling (castling s) m p (board s (row (mto m)) (col (mto m)))"
  using assms by (auto elim!: makeMove_cases)

lemma concat_map_single:
  "distinct xs \<Longrightarrow> x0 \<in> set xs \<Longrightarrow> (\<And>x. x \<in> set xs \<Longrightarrow> x \<noteq> x0 \<Longrightarrow> f x = [])
     \<Longrightarrow> concat (map f xs) = f x0"
proof (induction xs)
  case Nil
  then show ?case by simp
next
  case (Cons a xs)
  show ?case
  proof (cases "a = x0")
    case True
    with Cons.prems have "\<And>x. x \<in> set xs \<Longrightarrow> f x = []" by auto
    then have "concat (map f xs) = []" by (induction xs) auto
    with True show ?thesis by simp
  next
    case False
    with Cons show ?thesis by auto
  qed
qed

lemma distinct_squares: "distinct squares"
  by code_simp

lemma nonKings_single:
  assumes "r0 < 8" "k0 < 8" "b r0 k0 = Some \<lparr>color = c, type = t\<rparr>" "t \<noteq> King"
    and "\<And>r k p. r < 8 \<Longrightarrow> k < 8 \<Longrightarrow> (r, k) \<noteq> (r0, k0) \<Longrightarrow> b r k = Some p
            \<Longrightarrow> type p = King \<or> color p \<noteq> c"
  shows "nonKings b c = [(t, r0, k0)]"
proof -
  let ?f = "\<lambda>(r, k). case b r k of None \<Rightarrow> []
             | Some p \<Rightarrow> (if type p \<noteq> King \<and> color p = c then [(type p, r, k)] else [])"
  have "concat (map ?f squares) = ?f (r0, k0)"
  proof (rule concat_map_single[OF distinct_squares])
    show "(r0, k0) \<in> set squares" using assms(1,2) by (simp add: set_squares)
  next
    fix x assume x: "x \<in> set squares" "x \<noteq> (r0, k0)"
    obtain r k where rk: "x = (r, k)" by (cases x)
    with x have "r < 8" "k < 8" by (simp_all add: set_squares)
    with assms(5)[of r k] x rk show "?f x = []"
      by (cases "b r k") auto
  qed
  with assms(3,4) show ?thesis by (simp add: nonKings_def)
qed

lemma isInsufficientMaterial_bishops:
  assumes "r1 < 8" "k1 < 8" "b r1 k1 = Some \<lparr>color = White, type = Bishop\<rparr>"
    and "r2 < 8" "k2 < 8" "b r2 k2 = Some \<lparr>color = Black, type = Bishop\<rparr>"
    and rest: "\<And>r k p. r < 8 \<Longrightarrow> k < 8 \<Longrightarrow> b r k = Some p
            \<Longrightarrow> type p = King \<or> (r, k) = (r1, k1) \<or> (r, k) = (r2, k2)"
  shows "isInsufficientMaterial b \<longleftrightarrow> (r1 + k1) mod 2 = (r2 + k2) mod 2"
proof -
  have w: "nonKings b White = [(Bishop, r1, k1)]"
  proof (rule nonKings_single[where ?r0.0 = r1 and ?k0.0 = k1 and t = Bishop and c = White])
    fix r k p assume "r < 8" "k < 8" "(r, k) \<noteq> (r1, k1)" "b r k = Some p"
    with rest[of r k p] assms(6) show "type p = King \<or> color p \<noteq> White" by auto
  qed (use assms in simp_all)
  have bl: "nonKings b Black = [(Bishop, r2, k2)]"
  proof (rule nonKings_single[where ?r0.0 = r2 and ?k0.0 = k2 and t = Bishop and c = Black])
    fix r k p assume "r < 8" "k < 8" "(r, k) \<noteq> (r2, k2)" "b r k = Some p"
    with rest[of r k p] assms(3) show "type p = King \<or> color p \<noteq> Black" by auto
  qed (use assms in simp_all)
  show ?thesis by (simp add: isInsufficientMaterial_def w bl)
qed

lemma adjudicate_live:
  assumes "\<not> gameOver st" "oms \<noteq> []"
  shows "gameOver (adjudicate st c n oms ic)
           = (isInsufficientMaterial (board st) \<or> 100 \<le> halfMoveClock st)"
    and "result (adjudicate st c n oms ic)
           = (if isInsufficientMaterial (board st) \<or> 100 \<le> halfMoveClock st then Some Draw
              else result st)"
  using assms by (auto simp: adjudicate_def Let_def)

lemma getLegalMoves_fields:
  assumes "board s = board t" "turn s = turn t" "castling s = castling t"
    "enPassant s = enPassant t"
  shows "getLegalMoves s co = getLegalMoves t co"
proof -
  have pm: "pawnMoves s c r k = pawnMoves t c r k" for c r k
    unfolding pawnMoves_def assms by (rule refl)
  have cm: "castlingMoves s c r k = castlingMoves t c r k" for c r k
    unfolding castlingMoves_def assms by (rule refl)
  have "pieceMoves s c r k = pieceMoves t c r k" for c r k
    unfolding pieceMoves_def assms pm cm by (rule refl)
  then have gp: "getPseudoMoves s c = getPseudoMoves t c" for c
    by (simp add: getPseudoMoves_def)
  show ?thesis unfolding getLegalMoves_def assms gp by (rule refl)
qed

subsection \<open>The search\<close>

lemma moveScore_total:
  assumes "row (mfrom m) < 8" "row (mto m) < 8" "board s (row (mfrom m)) (col (mfrom m)) \<noteq> None"
  shows "moveScore s m \<noteq> None"
  using assms by (auto simp: moveScore_def split: option.splits)

lemma orderMoves_set: "orderMoves s l = Some ms \<Longrightarrow> set ms = set l \<and> length ms = length l"
  by (auto simp: orderMoves_def split: if_splits)

lemma orderMoves_total:
  assumes "\<And>m. m \<in> set l \<Longrightarrow> moveScore s m \<noteq> None"
  shows "\<exists>ms. orderMoves s l = Some ms"
proof -
  have "\<not> list_ex (\<lambda>m. moveScore s m = None) l"
    using assms unfolding list_ex_iff by blast
  then show ?thesis by (simp add: orderMoves_def)
qed

lemma legal_wf:
  assumes "getLegalMoves s co = Some l" "m \<in> set l"
  shows "row (mfrom m) < 8 \<and> row (mto m) < 8 \<and> board s (row (mfrom m)) (col (mfrom m)) \<noteq> None"
  using getPseudoMoves_wf[OF getLegalMoves_pseudo[OF assms]] by auto

lemma orderMoves_legal:
  assumes "getLegalMoves s co = Some l"
  shows "\<exists>ms. orderMoves s l = Some ms"
proof (rule orderMoves_total)
  fix m assume "m \<in> set l"
  from legal_wf[OF assms this] show "moveScore s m \<noteq> None"
    by (intro moveScore_total) blast+
qed

lemma full_total:
  shows "\<exists>r. minimaxFull s d mx = Some r"
    and "(\<And>m. m \<in> set ms \<Longrightarrow> makeMove s m \<noteq> None) \<Longrightarrow> \<exists>r. maxLoopFull s d ms e bm = Some r"
    and "(\<And>m. m \<in> set ms \<Longrightarrow> makeMove s m \<noteq> None) \<Longrightarrow> \<exists>r. minLoopFull s d ms e bm = Some r"
proof (induction s d mx and s d ms e bm and s d ms e bm
       rule: minimaxFull_maxLoopFull_minLoopFull.induct)
  case (1 state depth maximizing)
  show ?case
  proof (cases "depth = 0 \<or> gameOver state")
    case True
    then show ?thesis by (subst minimaxFull.simps) auto
  next
    case False
    obtain legal where legal: "getLegalMoves state None = Some legal"
      using getLegalMoves_total by blast
    obtain moves where moves: "orderMoves state legal = Some moves"
      using orderMoves_legal[OF legal] by blast
    have nf: "makeMove state m \<noteq> None" if "m \<in> set moves" for m
    proof -
      from that orderMoves_set[OF moves] have "m \<in> set legal" by simp
      from legal_wf[OF legal this] show ?thesis by (simp add: makeMove_fault_iff)
    qed
    show ?thesis
    proof (cases "length moves = 0")
      case True
      with False legal moves show ?thesis by (subst minimaxFull.simps) auto
    next
      case ne: False
      show ?thesis
      proof (cases maximizing)
        case True
        from "1.IH"(1)[OF False legal moves ne True nf]
        obtain r where "maxLoopFull state (depth - 1) moves NegInf (moves ! 0) = Some r" by blast
        with False legal moves ne True show ?thesis by (subst minimaxFull.simps) auto
      next
        case mn: False
        from "1.IH"(2)[OF False legal moves ne mn nf]
        obtain r where "minLoopFull state (depth - 1) moves PosInf (moves ! 0) = Some r" by blast
        with False legal moves ne mn show ?thesis by (subst minimaxFull.simps) auto
      qed
    qed
  qed
next
  case (2 state d maxEval bestMove)
  show ?case by (simp add: maxLoopFull.simps)
next
  case (3 state d m ms maxEval bestMove)
  from "3.prems" have nf: "makeMove state m \<noteq> None" by simp
  show ?case
  proof (cases "makeMove state m")
    case None
    with nf show ?thesis by simp
  next
    case (Some o1)
    show ?thesis
    proof (cases o1)
      case None
      from "3.IH"(1)[OF Some None] "3.prems" Some None
      show ?thesis by (simp add: maxLoopFull.simps)
    next
      case (Some ns)
      note ns = \<open>makeMove state m = Some o1\<close> Some
      from "3.IH"(2)[OF ns] obtain sc mv where r: "minimaxFull ns d False = Some (sc, mv)"
        by (cases "minimaxFull ns d False") auto
      from "3.IH"(3)[OF ns r refl] "3.prems" r ns
      show ?thesis by (simp add: maxLoopFull.simps)
    qed
  qed
next
  case (4 state d minEval bestMove)
  show ?case by (simp add: minLoopFull.simps)
next
  case (5 state d m ms minEval bestMove)
  from "5.prems" have nf: "makeMove state m \<noteq> None" by simp
  show ?case
  proof (cases "makeMove state m")
    case None
    with nf show ?thesis by simp
  next
    case (Some o1)
    show ?thesis
    proof (cases o1)
      case None
      from "5.IH"(1)[OF Some None] "5.prems" Some None
      show ?thesis by (simp add: minLoopFull.simps)
    next
      case (Some ns)
      note ns = \<open>makeMove state m = Some o1\<close> Some
      from "5.IH"(2)[OF ns] obtain sc mv where r: "minimaxFull ns d True = Some (sc, mv)"
        by (cases "minimaxFull ns d True") auto
      from "5.IH"(3)[OF ns r refl] "5.prems" r ns
      show ?thesis by (simp add: minLoopFull.simps)
    qed
  qed
qed

lemma agrees_refl: "agrees a b v v"
  by (simp add: agrees_def)

lemma score_bounds [simp]: "NegInf \<le> (x::score)" "(x::score) \<le> PosInf"
  by (cases x; simp)+

lemma agrees_full_window: "agrees NegInf PosInf v u \<Longrightarrow> v = u"
  by (cases v; cases u) (auto simp: agrees_def less_score_def)

lemma maxLoopFull_mono: "maxLoopFull s d ms e bm = Some (u, um) \<Longrightarrow> e \<le> u"
proof (induction ms arbitrary: e bm)
  case Nil
  then show ?case by (simp add: maxLoopFull.simps)
next
  case (Cons m ms)
  show ?case
  proof (cases "makeMove s m")
    case None
    with Cons.prems show ?thesis by (simp add: maxLoopFull.simps)
  next
    case (Some o1)
    show ?thesis
    proof (cases o1)
      case None
      with Some Cons show ?thesis by (simp add: maxLoopFull.simps)
    next
      case (Some ns)
      with \<open>makeMove s m = Some o1\<close> Cons.prems obtain sc mv where
        "maxLoopFull s d ms (if sc > e then sc else e) (if sc > e then m else bm) = Some (u, um)"
        by (auto simp: maxLoopFull.simps split: option.splits)
      from Cons.IH[OF this] show ?thesis by (auto split: if_splits)
    qed
  qed
qed

lemma minLoopFull_mono: "minLoopFull s d ms e bm = Some (u, um) \<Longrightarrow> u \<le> e"
proof (induction ms arbitrary: e bm)
  case Nil
  then show ?case by (simp add: minLoopFull.simps)
next
  case (Cons m ms)
  show ?case
  proof (cases "makeMove s m")
    case None
    with Cons.prems show ?thesis by (simp add: minLoopFull.simps)
  next
    case (Some o1)
    show ?thesis
    proof (cases o1)
      case None
      with Some Cons show ?thesis by (simp add: minLoopFull.simps)
    next
      case (Some ns)
      with \<open>makeMove s m = Some o1\<close> Cons.prems obtain sc mv where
        "minLoopFull s d ms (if sc < e then sc else e) (if sc < e then m else bm) = Some (u, um)"
        by (auto simp: minLoopFull.simps split: option.splits)
      from Cons.IH[OF this] show ?thesis by (auto split: if_splits)
    qed
  qed
qed

lemma maxLoop_mono:
  "maxLoop s d ms a b e bm = Some (v, vm) \<Longrightarrow> e \<le> v \<and> (vm = bm \<or> vm \<in> set ms)"
proof (induction ms arbitrary: a e bm)
  case Nil
  then show ?case by (simp add: maxLoop.simps)
next
  case (Cons m ms)
  show ?case
  proof (cases "makeMove s m")
    case None
    with Cons.prems show ?thesis by (simp add: maxLoop.simps)
  next
    case (Some o1)
    show ?thesis
    proof (cases o1)
      case None
      with Some Cons.prems have "maxLoop s d ms a b e bm = Some (v, vm)"
        by (simp add: maxLoop.simps)
      from Cons.IH[OF this] show ?thesis by auto
    next
      case (Some ns)
      with \<open>makeMove s m = Some o1\<close> Cons.prems obtain sc mv where
        r: "minimax ns d a b False = Some (sc, mv)"
        by (auto simp: maxLoop.simps split: option.splits)
      show ?thesis
      proof (cases "b \<le> max a sc")
        case True
        with Some \<open>makeMove s m = Some o1\<close> Cons.prems r show ?thesis
          by (auto simp: maxLoop.simps Let_def split: if_splits)
      next
        case False
        with Some \<open>makeMove s m = Some o1\<close> Cons.prems r have
          "maxLoop s d ms (max a sc) b (if sc > e then sc else e) (if sc > e then m else bm)
             = Some (v, vm)"
          by (simp add: maxLoop.simps Let_def)
        from Cons.IH[OF this] show ?thesis by (auto split: if_splits)
      qed
    qed
  qed
qed

lemma minLoop_mono:
  "minLoop s d ms a b e bm = Some (v, vm) \<Longrightarrow> v \<le> e \<and> (vm = bm \<or> vm \<in> set ms)"
proof (induction ms arbitrary: b e bm)
  case Nil
  then show ?case by (simp add: minLoop.simps)
next
  case (Cons m ms)
  show ?case
  proof (cases "makeMove s m")
    case None
    with Cons.prems show ?thesis by (simp add: minLoop.simps)
  next
    case (Some o1)
    show ?thesis
    proof (cases o1)
      case None
      with Some Cons.prems have "minLoop s d ms a b e bm = Some (v, vm)"
        by (simp add: minLoop.simps)
      from Cons.IH[OF this] show ?thesis by auto
    next
      case (Some ns)
      with \<open>makeMove s m = Some o1\<close> Cons.prems obtain sc mv where
        r: "minimax ns d a b True = Some (sc, mv)"
        by (auto simp: minLoop.simps split: option.splits)
      show ?thesis
      proof (cases "min b sc \<le> a")
        case True
        with Some \<open>makeMove s m = Some o1\<close> Cons.prems r show ?thesis
          by (auto simp: minLoop.simps Let_def split: if_splits)
      next
        case False
        with Some \<open>makeMove s m = Some o1\<close> Cons.prems r have
          "minLoop s d ms a (min b sc) (if sc < e then sc else e) (if sc < e then m else bm)
             = Some (v, vm)"
          by (simp add: minLoop.simps Let_def)
        from Cons.IH[OF this] show ?thesis by (auto split: if_splits)
      qed
    qed
  qed
qed

lemma agrees_max_break:
  assumes "a < b" "e \<le> a" "agrees a b r c" "b \<le> max a r" "(if c > fe then c else fe) \<le> u"
  shows "agrees a b (if r > e then r else e) u"
  using assms unfolding agrees_def by (auto simp: max_def split: if_splits)

lemma agrees_max_pre:
  assumes "a < b" "e \<le> a" "fe \<le> e" "agrees a b r c" "\<not> b \<le> max a r"
  shows "max a r < b" "(if r > e then r else e) \<le> max a r"
    "(if c > fe then c else fe) \<le> (if r > e then r else e)"
  using assms unfolding agrees_def by (auto simp: max_def split: if_splits)

lemma agrees_max_post:
  assumes "a < b" "e \<le> a" "agrees a b r c" "\<not> b \<le> max a r" "agrees (max a r) b v u"
    "(if r > e then r else e) \<le> v" "(if c > fe then c else fe) \<le> u"
  shows "agrees a b v u"
  using assms unfolding agrees_def by (auto simp: max_def split: if_splits)

lemma agrees_min_break:
  assumes "a < b" "b \<le> e" "agrees a b r c" "min b r \<le> a" "u \<le> (if c < fe then c else fe)"
  shows "agrees a b (if r < e then r else e) u"
  using assms unfolding agrees_def by (auto simp: min_def split: if_splits)

lemma agrees_min_pre:
  assumes "a < b" "b \<le> e" "e \<le> fe" "agrees a b r c" "\<not> min b r \<le> a"
  shows "a < min b r" "min b r \<le> (if r < e then r else e)"
    "(if r < e then r else e) \<le> (if c < fe then c else fe)"
  using assms unfolding agrees_def by (auto simp: min_def split: if_splits)

lemma agrees_min_post:
  assumes "a < b" "b \<le> e" "agrees a b r c" "\<not> min b r \<le> a" "agrees a (min b r) v u"
    "v \<le> (if r < e then r else e)" "u \<le> (if c < fe then c else fe)"
  shows "agrees a b v u"
  using assms unfolding agrees_def by (auto simp: min_def split: if_splits)

lemma pruned_agrees:
  shows "a < b \<Longrightarrow> minimaxFull s d mx = Some (u, mu)
           \<Longrightarrow> \<exists>v mv. minimax s d a b mx = Some (v, mv) \<and> agrees a b v u"
    and "a < b \<Longrightarrow> e \<le> a \<Longrightarrow> fe \<le> e \<Longrightarrow> maxLoopFull s d ms fe fbm = Some (u, um)
           \<Longrightarrow> \<exists>v vm. maxLoop s d ms a b e bm = Some (v, vm) \<and> agrees a b v u"
    and "a < b \<Longrightarrow> b \<le> e \<Longrightarrow> e \<le> fe \<Longrightarrow> minLoopFull s d ms fe fbm = Some (u, um)
           \<Longrightarrow> \<exists>v vm. minLoop s d ms a b e bm = Some (v, vm) \<and> agrees a b v u"
proof (induction s d a b mx and s d ms a b e bm and s d ms a b e bm
       arbitrary: u mu and fe fbm u um and fe fbm u um
       rule: minimax_maxLoop_minLoop.induct)
  case (1 state depth alpha beta maximizing)
  show ?case
  proof (cases "depth = 0 \<or> gameOver state")
    case True
    with "1.prems"(2) have "u = Fin (evaluate state)"
      by (subst (asm) minimaxFull.simps) auto
    moreover from True have "minimax state depth alpha beta maximizing = Some (Fin (evaluate state), None)"
      by (subst minimax.simps) auto
    ultimately show ?thesis by (simp add: agrees_refl)
  next
    case False
    obtain legal where legal: "getLegalMoves state None = Some legal"
      using getLegalMoves_total by blast
    obtain moves where moves: "orderMoves state legal = Some moves"
      using orderMoves_legal[OF legal] by blast
    show ?thesis
    proof (cases "length moves = 0")
      case True
      with False legal moves "1.prems"(2)
      have "minimax state depth alpha beta maximizing = Some (u, mu)"
        by (subst minimax.simps, subst (asm) minimaxFull.simps) auto
      then show ?thesis by (simp add: agrees_refl)
    next
      case ne: False
      show ?thesis
      proof (cases maximizing)
        case True
        from False legal moves ne True "1.prems"(2) obtain um where
          f: "maxLoopFull state (depth - 1) moves NegInf (moves ! 0) = Some (u, um)"
          by (subst (asm) minimaxFull.simps) auto
        from "1.IH"(1)[OF False legal moves ne True "1.prems"(1) _ _ f]
        obtain v vm where
          "maxLoop state (depth - 1) moves alpha beta NegInf (moves ! 0) = Some (v, vm)"
          "agrees alpha beta v u" by auto
        with False legal moves ne True show ?thesis by (subst minimax.simps) auto
      next
        case mn: False
        from False legal moves ne mn "1.prems"(2) obtain um where
          f: "minLoopFull state (depth - 1) moves PosInf (moves ! 0) = Some (u, um)"
          by (subst (asm) minimaxFull.simps) auto
        from "1.IH"(2)[OF False legal moves ne mn "1.prems"(1) _ _ f]
        obtain v vm where
          "minLoop state (depth - 1) moves alpha beta PosInf (moves ! 0) = Some (v, vm)"
          "agrees alpha beta v u" by auto
        with False legal moves ne mn show ?thesis by (subst minimax.simps) auto
      qed
    qed
  qed
next
  case (2 state d alpha beta maxEval bestMove)
  from "2.prems" show ?case
    by (auto simp: maxLoop.simps maxLoopFull.simps agrees_def)
next
  case (3 state d m ms alpha beta maxEval bestMove)
  show ?case
  proof (cases "makeMove state m")
    case None
    with "3.prems"(4) show ?thesis by (simp add: maxLoopFull.simps)
  next
    case (Some o1)
    show ?thesis
    proof (cases o1)
      case None
      with Some "3.prems"(4) have "maxLoopFull state d ms fe fbm = Some (u, um)"
        by (simp add: maxLoopFull.simps)
      from "3.IH"(1)[OF Some None "3.prems"(1-3) this] Some None
      show ?thesis by (simp add: maxLoop.simps)
    next
      case (Some ns)
      note mk = \<open>makeMove state m = Some o1\<close> Some
      from mk "3.prems"(4) obtain c cm where
        c: "minimaxFull ns d False = Some (c, cm)" and
        f: "maxLoopFull state d ms (if c > fe then c else fe) (if c > fe then m else fbm)
              = Some (u, um)"
        by (auto simp: maxLoopFull.simps split: option.splits)
      from "3.IH"(2)[OF mk "3.prems"(1) c] obtain r rm where
        r: "minimax ns d alpha beta False = Some (r, rm)" and ag: "agrees alpha beta r c"
        by blast
      show ?thesis
      proof (cases "beta \<le> max alpha r")
        case True
        from maxLoopFull_mono[OF f] have "(if c > fe then c else fe) \<le> u" .
        from agrees_max_break[OF "3.prems"(1,2) ag True this] mk r True
        show ?thesis by (simp add: maxLoop.simps Let_def)
      next
        case False
        note pre = agrees_max_pre[OF "3.prems"(1-3) ag False]
        from "3.IH"(3)[OF mk r refl refl refl refl False pre f]
        obtain v vm where
          v: "maxLoop state d ms (max alpha r) beta (if r > maxEval then r else maxEval)
                (if r > maxEval then m else bestMove) = Some (v, vm)"
          and ag': "agrees (max alpha r) beta v u"
          by blast
        from maxLoop_mono[OF v] have "(if r > maxEval then r else maxEval) \<le> v" by simp
        from agrees_max_post[OF "3.prems"(1,2) ag False ag' this maxLoopFull_mono[OF f]]
          mk r False v
        show ?thesis by (simp add: maxLoop.simps Let_def)
      qed
    qed
  qed
next
  case (4 state d alpha beta minEval bestMove)
  from "4.prems" show ?case
    by (auto simp: minLoop.simps minLoopFull.simps agrees_def)
next
  case (5 state d m ms alpha beta minEval bestMove)
  show ?case
  proof (cases "makeMove state m")
    case None
    with "5.prems"(4) show ?thesis by (simp add: minLoopFull.simps)
  next
    case (Some o1)
    show ?thesis
    proof (cases o1)
      case None
      with Some "5.prems"(4) have "minLoopFull state d ms fe fbm = Some (u, um)"
        by (simp add: minLoopFull.simps)
      from "5.IH"(1)[OF Some None "5.prems"(1-3) this] Some None
      show ?thesis by (simp add: minLoop.simps)
    next
      case (Some ns)
      note mk = \<open>makeMove state m = Some o1\<close> Some
      from mk "5.prems"(4) obtain c cm where
        c: "minimaxFull ns d True = Some (c, cm)" and
        f: "minLoopFull state d ms (if c < fe then c else fe) (if c < fe then m else fbm)
              = Some (u, um)"
        by (auto simp: minLoopFull.simps split: option.splits)
      from "5.IH"(2)[OF mk "5.prems"(1) c] obtain r rm where
        r: "minimax ns d alpha beta True = Some (r, rm)" and ag: "agrees alpha beta r c"
        by blast
      show ?thesis
      proof (cases "min beta r \<le> alpha")
        case True
        from minLoopFull_mono[OF f] have "u \<le> (if c < fe then c else fe)" .
        from agrees_min_break[OF "5.prems"(1,2) ag True this] mk r True
        show ?thesis by (simp add: minLoop.simps Let_def)
      next
        case False
        note pre = agrees_min_pre[OF "5.prems"(1-3) ag False]
        from "5.IH"(3)[OF mk r refl refl refl refl False pre f]
        obtain v vm where
          v: "minLoop state d ms alpha (min beta r) (if r < minEval then r else minEval)
                (if r < minEval then m else bestMove) = Some (v, vm)"
          and ag': "agrees alpha (min beta r) v u"
          by blast
        from minLoop_mono[OF v] have "v \<le> (if r < minEval then r else minEval)" by simp
        from agrees_min_post[OF "5.prems"(1,2) ag False ag' this minLoopFull_mono[OF f]]
          mk r False v
        show ?thesis by (simp add: minLoop.simps Let_def)
      qed
    qed
  qed
qed

lemma minimax_total: "a < b \<Longrightarrow> \<exists>v mv. minimax s d a b mx = Some (v, mv)"
proof -
  assume ab: "a < b"
  obtain u mu where "minimaxFull s d mx = Some (u, mu)"
    using full_total(1)[of s d mx] by auto
  from pruned_agrees(1)[OF ab this] show ?thesis by blast
qed

subsection \<open>FEN\<close>

lemma splitOn_nonempty: "splitOn sep s \<noteq> []"
  by (induction s) (auto split: list.splits)

lemma joinWith_splitOn: "joinWith sep (splitOn sep s) = s"
proof (induction s)
  case Nil
  show ?case by simp
next
  case (Cons x xs)
  show ?case
  proof (cases "x = sep")
    case True
    with Cons splitOn_nonempty[of sep xs] show ?thesis
      by (cases "splitOn sep xs") auto
  next
    case False
    with Cons splitOn_nonempty[of sep xs] show ?thesis
      by (cases "splitOn sep xs"; cases "tl (splitOn sep xs)") auto
  qed
qed

lemma digit_roundtrip: "isDigit d \<Longrightarrow> digitChar (digitVal d) = d"
  by (simp add: isDigit_def digitChar_def digitVal_def)

lemma digitVal_less: "isDigit d \<Longrightarrow> digitVal d < 10"
  by (auto simp: isDigit_def digitVal_def)

lemma digitsVal_snoc: "digitsVal (ds @ [d]) = 10 * digitsVal ds + digitVal d"
  by (simp add: digitsVal_def)

lemma digitsVal_pos:
  "ds \<noteq> [] \<Longrightarrow> list_all isDigit ds \<Longrightarrow> hd ds \<noteq> CHR ''0'' \<Longrightarrow> 0 < digitsVal ds"
proof (induction ds rule: rev_induct)
  case Nil
  then show ?case by simp
next
  case (snoc d ds)
  show ?case
  proof (cases "ds = []")
    case True
    with snoc.prems have "isDigit d" "d \<noteq> CHR ''0''" by simp_all
    then have "digitVal d \<noteq> 0"
    proof -
      assume dd: "isDigit d" and nz: "d \<noteq> CHR ''0''"
      show ?thesis
      proof
        assume "digitVal d = 0"
        with dd have "(of_char d :: nat) = 48" by (simp add: isDigit_def digitVal_def)
        then have "(of_char d :: nat) = of_char CHR ''0''" by simp
        then have "d = CHR ''0''" by (simp only: of_char_eq_iff)
        with nz show False by simp
      qed
    qed
    with True show ?thesis by (simp add: digitsVal_def)
  next
    case False
    with snoc have "0 < digitsVal ds" by simp
    then show ?thesis by (simp add: digitsVal_snoc)
  qed
qed

lemma showNat_digitsVal:
  "ds \<noteq> [] \<Longrightarrow> list_all isDigit ds \<Longrightarrow> ds = ''0'' \<or> hd ds \<noteq> CHR ''0''
     \<Longrightarrow> showNat (digitsVal ds) = ds"
proof (induction ds rule: rev_induct)
  case Nil
  then show ?case by simp
next
  case (snoc d ds)
  from snoc.prems have d: "isDigit d" by simp
  show ?case
  proof (cases "ds = []")
    case True
    with d show ?thesis
      by (subst showNat.simps) (simp add: digitsVal_def digitVal_less digit_roundtrip)
  next
    case False
    with snoc.prems have h: "hd ds \<noteq> CHR ''0''" "list_all isDigit ds" by auto
    from digitsVal_pos[OF False h(2,1)] have pos: "0 < digitsVal ds" .
    from snoc.IH[OF False h(2)] h(1) have ih: "showNat (digitsVal ds) = ds" by simp
    have dv: "(10 * digitsVal ds + digitVal d) div 10 = digitsVal ds"
      "(10 * digitsVal ds + digitVal d) mod 10 = digitVal d"
      using digitVal_less[OF d] by simp_all
    from pos have "\<not> 10 * digitsVal ds + digitVal d < 10" by simp
    then show ?thesis
      by (subst showNat.simps)
         (simp add: digitsVal_snoc dv ih digit_roundtrip[OF d] digitVal_less[OF d])
  qed
qed

lemma fenRow_replicate: "fenRow (replicate n None @ cs) e = fenRow cs (e + n)"
  by (induction n arbitrary: e) simp_all

lemma fenRow_all_empty: "fenRow (replicate n None) e = (if e + n > 0 then showNat (e + n) else [])"
  using fenRow_replicate[of n "[]" e] by simp

lemma fenRow_Some_count:
  "fenRow (Some p # cs) e = (if e > 0 then showNat e else []) @ fenRow (Some p # cs) 0"
  by simp

lemma showNat_digit: "isDigit d \<Longrightarrow> showNat (digitVal d) = [d]"
  by (subst showNat.simps) (simp add: digitVal_less digit_roundtrip)

lemma pieceChar_table:
  "list_all (\<lambda>x. \<not> isDigit x \<and>
      (case typeOfLetter (toUpperCase x) of
         None \<Rightarrow> False
       | Some t \<Rightarrow> (if x = toUpperCase x then pieceLetter t else toLowerCase (pieceLetter t)) = x))
     ''PNBRQKpnbrqk''"
  by code_simp

lemma pieceChar_roundtrip:
  assumes "x \<in> set ''PNBRQKpnbrqk''"
  shows "\<not> isDigit x \<and> (\<exists>t. typeOfLetter (toUpperCase x) = Some t
           \<and> (if x = toUpperCase x then pieceLetter t else toLowerCase (pieceLetter t)) = x)"
proof -
  from pieceChar_table assms have
    "\<not> isDigit x \<and>
      (case typeOfLetter (toUpperCase x) of
         None \<Rightarrow> False
       | Some t \<Rightarrow> (if x = toUpperCase x then pieceLetter t else toLowerCase (pieceLetter t)) = x)"
    unfolding list_all_iff by blast
  then show ?thesis by (cases "typeOfLetter (toUpperCase x)") auto
qed

lemma parseRow_roundtrip:
  "wfRankChars rk \<Longrightarrow>
     \<exists>cells. parseRow rk = Some cells \<and> length cells = rankWidth rk \<and> fenRow cells 0 = rk
        \<and> (rk \<noteq> [] \<and> \<not> isDigit (hd rk) \<longrightarrow> (\<exists>p cs. cells = Some p # cs))"
proof (induction rk)
  case Nil
  show ?case by simp
next
  case (Cons x rest)
  from Cons.prems have wr: "wfRankChars rest" by simp
  from Cons.IH[OF wr] obtain cells where
    cells: "parseRow rest = Some cells" "length cells = rankWidth rest" "fenRow cells 0 = rest"
      "rest \<noteq> [] \<and> \<not> isDigit (hd rest) \<longrightarrow> (\<exists>p cs. cells = Some p # cs)"
    by blast
  show ?case
  proof (cases "isDigit x")
    case True
    with Cons.prems have v: "1 \<le> digitVal x" and nd: "rest = [] \<or> \<not> isDigit (hd rest)"
      by (auto split: list.splits)
    have "fenRow (replicate (digitVal x) None @ cells) 0 = x # rest"
    proof (cases "rest = []")
      case True
      with cells(1) have "cells = []" by simp
      with True v showNat_digit[OF \<open>isDigit x\<close>] show ?thesis
        by (simp add: fenRow_all_empty)
    next
      case False
      with nd cells(4) obtain p cs where pc: "cells = Some p # cs" by blast
      have "fenRow (replicate (digitVal x) None @ cells) 0 = fenRow cells (digitVal x)"
        by (simp add: fenRow_replicate)
      also have "\<dots> = showNat (digitVal x) @ fenRow cells 0"
        unfolding pc using v by (subst fenRow_Some_count) simp
      finally show ?thesis using cells(3) showNat_digit[OF \<open>isDigit x\<close>] by simp
    qed
    with True cells show ?thesis by simp
  next
    case False
    with Cons.prems have "x \<in> set ''PNBRQKpnbrqk''" by simp
    from pieceChar_roundtrip[OF this] obtain t where
      t: "typeOfLetter (toUpperCase x) = Some t"
         "(if x = toUpperCase x then pieceLetter t else toLowerCase (pieceLetter t)) = x"
      by blast
    show ?thesis
    proof (cases "x = toUpperCase x")
      case True
      with t have "pieceLetter t = x" by simp
      with True False cells(1-3) t(1) show ?thesis by simp
    next
      case lower: False
      with t have "toLowerCase (pieceLetter t) = x" by simp
      with lower False cells(1-3) t(1) show ?thesis by simp
    qed
  qed
qed

lemma upt8: "[0..<8] = [0, 1, 2, 3, 4, 5, 6, 7::nat]"
  by code_simp

lemma parseRows_roundtrip:
  assumes "\<And>r. r \<in> set rs \<Longrightarrow> r < length rows \<and> wfRank (rows ! r)"
  shows "\<exists>cs. parseRows rows rs = Some cs \<and> length cs = length rs
           \<and> (\<forall>i<length rs. length (cs ! i) = 8 \<and> fenRow (cs ! i) 0 = rows ! (rs ! i))"
  using assms
proof (induction rs)
  case Nil
  show ?case by simp
next
  case (Cons r rs)
  from Cons.prems have r: "r < length rows" "wfRank (rows ! r)" by auto
  from parseRow_roundtrip[of "rows ! r"] r(2) obtain cells where
    cells: "parseRow (rows ! r) = Some cells" "length cells = 8" "fenRow cells 0 = rows ! r"
    by (auto simp: wfRank_def)
  from Cons.IH Cons.prems obtain cs where
    cs: "parseRows rows rs = Some cs" "length cs = length rs"
        "\<forall>i<length rs. length (cs ! i) = 8 \<and> fenRow (cs ! i) 0 = rows ! (rs ! i)"
    by auto
  have "\<forall>i<length (r # rs). length ((cells # cs) ! i) = 8
          \<and> fenRow ((cells # cs) ! i) 0 = rows ! ((r # rs) ! i)"
  proof (intro allI impI)
    fix i assume "i < length (r # rs)"
    then show "length ((cells # cs) ! i) = 8 \<and> fenRow ((cells # cs) ! i) 0 = rows ! ((r # rs) ! i)"
      using cells cs(3) by (cases i) auto
  qed
  with r cells cs show ?case by (simp add: nthOpt_def)
qed

lemma boardOfRows_row:
  assumes "r < length cs" "length (cs ! r) = 8"
  shows "map (boardOfRows cs r) [0..<8] = cs ! r"
proof -
  have "map (boardOfRows cs r) [0..<8] = map ((!) (cs ! r)) [0..<length (cs ! r)]"
    using assms by (simp add: boardOfRows_def)
  then show ?thesis by (simp add: map_nth)
qed

lemma placement_join:
  assumes "length rows = 8"
  shows "concat (map (\<lambda>r. rows ! r @ (if r < 7 then ''/'' else [])) [0..<8])
           = joinWith CHR ''/'' rows"
proof -
  from assms obtain a b c d e f g h where "rows = [a, b, c, d, e, f, g, h]"
    by (auto simp: length_Suc_conv eval_nat_numeral)
  then show ?thesis by (simp add: upt8)
qed

lemma fen_placement:
  assumes "length rows = 8" "list_all wfRank rows"
  shows "\<exists>cs. parseRows rows [0..<8] = Some cs
           \<and> concat (map (\<lambda>r. fenRow (map (boardOfRows cs r) [0..<8]) 0
                                 @ (if r < 7 then ''/'' else [])) [0..<8])
               = joinWith CHR ''/'' rows"
proof -
  have rs: "r < length rows \<and> wfRank (rows ! r)" if "r \<in> set [0..<8]" for r
    using that assms by (auto simp: list_all_length)
  from parseRows_roundtrip[of "[0..<8]" rows, OF rs] obtain cs where
    cs: "parseRows rows [0..<8] = Some cs" "length cs = 8"
        "\<forall>i<8. length (cs ! i) = 8 \<and> fenRow (cs ! i) 0 = rows ! i"
    by auto
  have "fenRow (map (boardOfRows cs r) [0..<8]) 0 = rows ! r" if "r < 8" for r
    using that cs(2,3) by (simp add: boardOfRows_row)
  then have eq: "map (\<lambda>r. fenRow (map (boardOfRows cs r) [0..<8]) 0 @ (if r < 7 then ''/'' else [])) [0..<8]
        = map (\<lambda>r. rows ! r @ (if r < 7 then ''/'' else [])) [0..<8]"
    by (intro map_cong) auto
  have "concat (map (\<lambda>r. fenRow (map (boardOfRows cs r) [0..<8]) 0 @ (if r < 7 then ''/'' else [])) [0..<8])
        = joinWith CHR ''/'' rows"
    by (simp only: eq placement_join[OF assms(1)])
  with cs(1) show ?thesis by blast
qed

lemma castle_table:
  "list_all (\<lambda>s. castleOut s = s) (''-'' # filter (\<lambda>s. s \<noteq> []) (subseqs ''KQkq''))"
  by code_simp

lemma castle_roundtrip:
  assumes "castle = ''-'' \<or> (castle \<noteq> [] \<and> List.member (subseqs ''KQkq'') castle)"
  shows "castle \<noteq> [] \<and> castleOut castle = castle"
proof -
  from assms have "castle \<in> set (''-'' # filter (\<lambda>s. s \<noteq> []) (subseqs ''KQkq''))"
    by (simp del: subseqs.simps) blast
  with castle_table have "castleOut castle = castle" unfolding list_all_iff by blast
  with assms show ?thesis by auto
qed

lemma enPassant_table:
  "list_all (\<lambda>f. list_all (\<lambda>d.
      parseEnPassant (Some [f, d]) = Some (Some \<lparr>row = 8 - digitVal d, col = of_char f - 97\<rparr>)
      \<and> colLetter (of_char f - 97) # showInt (8 - int (8 - digitVal d)) = [f, d])
     ''12345678'') ''abcdefgh''"
  by code_simp

lemma enPassant_roundtrip:
  assumes "ep = ''-'' \<or> (case ep of [f, d] \<Rightarrow> List.member ''abcdefgh'' f \<and> List.member ''12345678'' d
                                       | _ \<Rightarrow> False)"
  shows "\<exists>e. parseEnPassant (Some ep) = Some e
           \<and> (case e of Some x \<Rightarrow> '' '' @ colLetter (col x) # showInt (8 - int (row x))
                        | None \<Rightarrow> '' -'') = '' '' @ ep"
proof (cases "ep = ''-''")
  case True
  then show ?thesis by (simp add: parseEnPassant_def)
next
  case False
  with assms obtain f d where fd: "ep = [f, d]" "f \<in> set ''abcdefgh''" "d \<in> set ''12345678''"
    by (auto split: list.splits)
  with enPassant_table have
    "parseEnPassant (Some [f, d]) = Some (Some \<lparr>row = 8 - digitVal d, col = of_char f - 97\<rparr>)
      \<and> colLetter (of_char f - 97) # showInt (8 - int (8 - digitVal d)) = [f, d]"
    unfolding list_all_iff by blast
  with fd(1) show ?thesis by simp
qed

lemma number_roundtrip:
  assumes "wfNumber s"
  shows "plainNumber s \<and> parseInt s = Some (int (digitsVal s)) \<and> showInt (int (digitsVal s)) = s
         \<and> (s \<noteq> ''0'' \<longrightarrow> digitsVal s \<noteq> 0)"
proof -
  from assms have ne: "s \<noteq> []" and dg: "list_all isDigit s"
    and canon: "s = ''0'' \<or> hd s \<noteq> CHR ''0''" and len: "length s \<le> 15"
    by (simp_all add: wfNumber_def)
  from ne obtain ch t where s: "s = ch # t" by (cases s) auto
  with dg have ch: "isDigit ch" and t: "list_all isDigit t" by simp_all
  from ch have nosign: "ch \<noteq> CHR ''-''" "ch \<noteq> CHR ''+''" by (auto simp: isDigit_def)
  have tw: "takeWhile isDigit s = s" using dg by (simp add: list_all_iff)
  have nox: "\<not> (x = CHR ''x'' \<or> x = CHR ''X'')" if "isDigit x" for x
    using that by (auto simp: isDigit_def)
  have body: "(case s of [] \<Rightarrow> [] | c # r \<Rightarrow> if c = CHR ''-'' \<or> c = CHR ''+'' then r else s) = s"
    using s nosign by simp
  have p1: "(case s of [] \<Rightarrow> True
             | c # r \<Rightarrow> isDigit c \<or> (32 < (of_char c :: nat) \<and> (of_char c :: nat) < 127))"
    using s ch by simp
  have p2: "(case s of a # x # r \<Rightarrow> \<not> (a = CHR ''0'' \<and> (x = CHR ''x'' \<or> x = CHR ''X''))
             | _ \<Rightarrow> True)"
  proof (cases t)
    case Nil
    with s show ?thesis by simp
  next
    case (Cons x r)
    with t have "isDigit x" by simp
    from nox[OF this] s Cons show ?thesis by simp
  qed
  have p3: "length (takeWhile isDigit s) \<le> 15" unfolding tw by (rule len)
  have pn: "plainNumber s"
    unfolding plainNumber_def Let_def body using p1 p2 p3 by blast
  have neg: "(case s of [] \<Rightarrow> False | c # r \<Rightarrow> c = CHR ''-'') = False"
    using s nosign by simp
  have pi: "parseInt s = Some (int (digitsVal s))"
    unfolding parseInt_def Let_def body neg tw using ne by (simp only: if_False simp_thms)
  have sh: "showInt (int (digitsVal s)) = s"
    using showNat_digitsVal[OF ne dg canon] by (simp add: showInt_def)
  have "digitsVal s \<noteq> 0" if "s \<noteq> ''0''"
    using digitsVal_pos[OF ne dg] canon that by auto
  with pn pi sh show ?thesis by blast
qed

subsection \<open>The heap\<close>

text \<open>Allocation leaves what a heap holds; the values read from it stay.\<close>

lemma deref_append: "deref h a = Some x \<Longrightarrow> deref (h @ ext) a = Some x"
  by (auto simp: deref_def nth_append split: if_splits)

lemma deref_new: "deref (h @ x # ext) (length h) = Some x"
  by (simp add: deref_def)

lemma spread_Some: "deref h a = Some x \<Longrightarrow> spread h a = Some (h @ [x], length h)"
  by (simp add: spread_def alloc_def)

lemma cellsAt_append: "cellsAt h cells = Some ps \<Longrightarrow> cellsAt (h @ ext) cells = Some ps"
  by (induction h cells arbitrary: ps rule: cellsAt.induct)
     (auto simp: deref_append split: option.splits obj.splits)

lemma rowsAt_append: "rowsAt h rows = Some pss \<Longrightarrow> rowsAt (h @ ext) rows = Some pss"
  by (induction h rows arbitrary: pss rule: rowsAt.induct)
     (auto simp: deref_append cellsAt_append split: option.splits obj.splits)

lemma boardAt_append: "boardAt h b = Some bd \<Longrightarrow> boardAt (h @ ext) b = Some bd"
  by (auto simp: boardAt_def deref_append rowsAt_append split: option.splits obj.splits if_splits)

lemma castlingAt_append: "castlingAt h a = Some c \<Longrightarrow> castlingAt (h @ ext) a = Some c"
  by (auto simp: castlingAt_def deref_append split: option.splits obj.splits)

lemma enPassantAt_append: "enPassantAt h e = Some ep \<Longrightarrow> enPassantAt (h @ ext) e = Some ep"
  by (auto simp: enPassantAt_def deref_append split: option.splits obj.splits)

lemma historyAt_append: "historyAt h a = Some es \<Longrightarrow> historyAt (h @ ext) a = Some es"
  by (auto simp: historyAt_def deref_append split: option.splits obj.splits)

lemma typesAt_append: "typesAt h a = Some ts \<Longrightarrow> typesAt (h @ ext) a = Some ts"
  by (auto simp: typesAt_def deref_append split: option.splits obj.splits)

lemma notationsAt_append: "notationsAt h a = Some ns \<Longrightarrow> notationsAt (h @ ext) a = Some ns"
  by (auto simp: notationsAt_def deref_append split: option.splits obj.splits)

lemma capturedAt_append: "capturedAt h a = Some cp \<Longrightarrow> capturedAt (h @ ext) a = Some cp"
  by (auto simp: capturedAt_def deref_append typesAt_append split: option.splits obj.splits)

lemma stateAt_fields:
  assumes "stateAt h a = Some s"
  obtains b c e hist cap nots where
    "deref h a = Some (StateObj b (turn s) c e (halfMoveClock s) (fullMoveNumber s) hist cap nots
       (gameOver s) (result s))"
    "boardAt h b = Some (board s)" "castlingAt h c = Some (castling s)"
    "enPassantAt h e = Some (enPassant s)" "historyAt h hist = Some (moveHistory s)"
    "capturedAt h cap = Some (capturedPieces s)" "notationsAt h nots = Some (moveNotations s)"
  using assms unfolding stateAt_def by (auto split: option.splits obj.splits)

lemma stateAt_intro:
  assumes "deref h a = Some (StateObj b (turn s) c e (halfMoveClock s) (fullMoveNumber s) hist cap nots
       (gameOver s) (result s))"
    "boardAt h b = Some (board s)" "castlingAt h c = Some (castling s)"
    "enPassantAt h e = Some (enPassant s)" "historyAt h hist = Some (moveHistory s)"
    "capturedAt h cap = Some (capturedPieces s)" "notationsAt h nots = Some (moveNotations s)"
  shows "stateAt h a = Some s"
  unfolding stateAt_def using assms by simp

lemma stateAt_append: "stateAt h a = Some s \<Longrightarrow> stateAt (h @ ext) a = Some s"
  by (erule stateAt_fields, rule stateAt_intro)
     (erule deref_append boardAt_append castlingAt_append enPassantAt_append
        historyAt_append capturedAt_append notationsAt_append)+

lemma cloneCells_ok:
  "cellsAt h cells = Some ps \<Longrightarrow>
     \<exists>ext cells'. cloneCells h cells = Some (h @ ext, cells') \<and> cellsAt (h @ ext) cells' = Some ps"
proof (induction cells arbitrary: h ps)
  case Nil
  then show ?case by (auto intro: exI[of _ "[]"])
next
  case (Cons c cells)
  show ?case
  proof (cases c)
    case None
    with Cons.prems obtain ps' where ps': "cellsAt h cells = Some ps'" "ps = None # ps'" by auto
    from Cons.IH[OF ps'(1)] ps'(2) None show ?thesis by auto
  next
    case (Some a)
    with Cons.prems obtain p ps' where p: "deref h a = Some (PieceObj p)"
        "cellsAt h cells = Some ps'" "ps = Some p # ps'"
      by (auto split: option.splits obj.splits)
    from Cons.IH[OF cellsAt_append[OF p(2), of "[PieceObj p]"]] obtain ext cells' where
      c: "cloneCells (h @ [PieceObj p]) cells = Some ((h @ [PieceObj p]) @ ext, cells')"
         "cellsAt ((h @ [PieceObj p]) @ ext) cells' = Some ps'"
      by blast
    have "cloneCells h (c # cells) = Some (h @ (PieceObj p # ext), Some (length h) # cells')"
      using c(1) by (simp add: Some spread_Some[OF p(1)])
    moreover have "cellsAt (h @ (PieceObj p # ext)) (Some (length h) # cells') = Some ps"
      using c(2) by (simp add: deref_new p(3))
    ultimately show ?thesis by blast
  qed
qed

lemma cloneRows_ok:
  "rowsAt h rows = Some pss \<Longrightarrow>
     \<exists>ext rows'. cloneRows h rows = Some (h @ ext, rows') \<and> rowsAt (h @ ext) rows' = Some pss
        \<and> length rows' = length rows"
proof (induction rows arbitrary: h pss)
  case Nil
  then show ?case by (auto intro: exI[of _ "[]"])
next
  case (Cons r rows)
  from Cons.prems obtain cells ps pss' where r: "deref h r = Some (RowArr cells)"
      "cellsAt h cells = Some ps" "rowsAt h rows = Some pss'" "pss = ps # pss'"
    by (auto split: option.splits obj.splits)
  from cloneCells_ok[OF r(2)] obtain e1 cells' where
    c: "cloneCells h cells = Some (h @ e1, cells')" "cellsAt (h @ e1) cells' = Some ps"
    by blast
  let ?h2 = "h @ e1 @ [RowArr cells']"
  from rowsAt_append[OF r(3), of "e1 @ [RowArr cells']"] have "rowsAt ?h2 rows = Some pss'" .
  from Cons.IH[OF this] obtain e2 rows' where
    rs: "cloneRows ?h2 rows = Some (?h2 @ e2, rows')" "rowsAt (?h2 @ e2) rows' = Some pss'"
        "length rows' = length rows"
    by blast
  let ?ext = "e1 @ RowArr cells' # e2"
  have "cloneRows h (r # rows) = Some (h @ ?ext, length (h @ e1) # rows')"
    using rs(1) by (simp add: r(1) c(1) alloc_def)
  moreover have "rowsAt (h @ ?ext) (length (h @ e1) # rows') = Some pss"
  proof -
    have d: "deref (h @ ?ext) (length (h @ e1)) = Some (RowArr cells')"
      using deref_new[of "h @ e1" "RowArr cells'" e2] by simp
    have "cellsAt ((h @ e1) @ (RowArr cells' # e2)) cells' = Some ps"
      by (rule cellsAt_append[OF c(2)])
    then have ca: "cellsAt (h @ ?ext) cells' = Some ps" by simp
    from rs(2) have ra: "rowsAt (h @ ?ext) rows' = Some pss'" by simp
    show ?thesis unfolding rowsAt.simps d using ca ra r(4) by simp
  qed
  ultimately show ?case using rs(3) by (intro exI[of _ ?ext] exI[of _ "length (h @ e1) # rows'"]) simp
qed

lemma cloneBoardH_ok:
  assumes "boardAt h b = Some bd"
  shows "\<exists>ext b'. cloneBoardH h b = Some (h @ ext, b') \<and> boardAt (h @ ext) b' = Some bd"
proof -
  from assms obtain rows pss where b: "deref h b = Some (BoardArr rows)" "length rows = 8"
      "rowsAt h rows = Some pss" "bd = boardOfRows pss"
    by (auto simp: boardAt_def split: option.splits obj.splits if_splits)
  from cloneRows_ok[OF b(3)] obtain e1 rows' where
    rs: "cloneRows h rows = Some (h @ e1, rows')" "rowsAt (h @ e1) rows' = Some pss"
        "length rows' = length rows"
    by blast
  have "cloneBoardH h b = Some (h @ (e1 @ [BoardArr rows']), length (h @ e1))"
    by (simp add: cloneBoardH_def b(1) rs(1) alloc_def)
  moreover have "boardAt (h @ (e1 @ [BoardArr rows'])) (length (h @ e1)) = Some bd"
  proof -
    have d: "deref (h @ (e1 @ [BoardArr rows'])) (length (h @ e1)) = Some (BoardArr rows')"
      using deref_new[of "h @ e1" "BoardArr rows'" "[]"] by simp
    have "rowsAt ((h @ e1) @ [BoardArr rows']) rows' = Some pss" by (rule rowsAt_append[OF rs(2)])
    then have "rowsAt (h @ (e1 @ [BoardArr rows'])) rows' = Some pss" by simp
    then show ?thesis unfolding boardAt_def d using rs(3) b(2,4) by simp
  qed
  ultimately show ?thesis by blast
qed

lemma extends_append: "extends h (h @ ext)"
  by (simp add: extends_def)

lemma extends_refl: "extends h h"
  by (simp add: extends_def)

lemma extendsD: "extends h h' \<Longrightarrow> \<exists>ext. h' = h @ ext"
  unfolding extends_def by (metis append_take_drop_id)

lemma extends_trans: "extends h h1 \<Longrightarrow> extends h1 h2 \<Longrightarrow> extends h h2"
  by (auto dest!: extendsD simp: extends_append)

lemma extends_alloc: "alloc h x = (h', a) \<Longrightarrow> extends h h'"
  by (auto simp: alloc_def extends_append)

lemma deref_alloc: "alloc h x = (h', a) \<Longrightarrow> deref h' a = Some x"
  by (auto simp: alloc_def deref_def)

lemma deref_extends: "extends h h' \<Longrightarrow> deref h a = Some x \<Longrightarrow> deref h' a = Some x"
  by (auto dest!: extendsD simp: deref_append)

lemma boardAt_extends: "extends h h' \<Longrightarrow> boardAt h b = Some bd \<Longrightarrow> boardAt h' b = Some bd"
  by (auto dest!: extendsD simp: boardAt_append)

lemma castlingAt_extends: "extends h h' \<Longrightarrow> castlingAt h a = Some c \<Longrightarrow> castlingAt h' a = Some c"
  by (auto dest!: extendsD simp: castlingAt_append)

lemma enPassantAt_extends: "extends h h' \<Longrightarrow> enPassantAt h e = Some ep \<Longrightarrow> enPassantAt h' e = Some ep"
  by (auto dest!: extendsD simp: enPassantAt_append)

lemma historyAt_extends: "extends h h' \<Longrightarrow> historyAt h a = Some es \<Longrightarrow> historyAt h' a = Some es"
  by (auto dest!: extendsD simp: historyAt_append)

lemma typesAt_extends: "extends h h' \<Longrightarrow> typesAt h a = Some ts \<Longrightarrow> typesAt h' a = Some ts"
  by (auto dest!: extendsD simp: typesAt_append)

lemma capturedAt_extends: "extends h h' \<Longrightarrow> capturedAt h a = Some cp \<Longrightarrow> capturedAt h' a = Some cp"
  by (auto dest!: extendsD simp: capturedAt_append)

lemma notationsAt_extends: "extends h h' \<Longrightarrow> notationsAt h a = Some ns \<Longrightarrow> notationsAt h' a = Some ns"
  by (auto dest!: extendsD simp: notationsAt_append)

lemma stateAt_extends: "extends h h' \<Longrightarrow> stateAt h a = Some s \<Longrightarrow> stateAt h' a = Some s"
  by (auto dest!: extendsD simp: stateAt_append)

lemma cloneBoardH_extends:
  assumes "boardAt h b = Some bd"
  obtains h' b' where "cloneBoardH h b = Some (h', b')" "extends h h'" "boardAt h' b' = Some bd"
  using cloneBoardH_ok[OF assms] extends_append by blast

lemma spread_extends:
  assumes "deref h a = Some x"
  obtains h' a' where "spread h a = Some (h', a')" "extends h h'" "deref h' a' = Some x"
  using spread_Some[OF assms] extends_append[of h "[x]"] deref_new[of h x "[]"] by blast

lemma cloneEnPassantH_extends:
  assumes "enPassantAt h e = Some ep"
  obtains h' e' where "cloneEnPassantH h e = Some (h', e')" "extends h h'"
    "enPassantAt h' e' = Some ep"
proof (cases e)
  case None
  with assms have "cloneEnPassantH h e = Some (h, None)" "enPassantAt h None = Some ep"
    by (simp_all add: cloneEnPassantH_def)
  with that extends_refl show ?thesis by blast
next
  case (Some a)
  with assms obtain q where q: "deref h a = Some (SquareObj q)" "ep = Some q"
    by (auto simp: enPassantAt_def split: option.splits obj.splits)
  from spread_extends[OF q(1)] obtain h' a' where
    s: "spread h a = Some (h', a')" "extends h h'" "deref h' a' = Some (SquareObj q)"
    by blast
  have "cloneEnPassantH h e = Some (h', Some a')" by (simp add: cloneEnPassantH_def Some s(1))
  moreover have "enPassantAt h' (Some a') = Some ep" by (simp add: enPassantAt_def s(3) q(2))
  ultimately show ?thesis using that s(2) by blast
qed

lemma cloneCapturedH_extends:
  assumes "capturedAt h cap = Some cp"
  obtains h' cap' where "cloneCapturedH h cap = Some (h', cap')" "extends h h'"
    "capturedAt h' cap' = Some cp"
proof -
  from assms obtain w b ws bs where c: "deref h cap = Some (CapturedObj w b)"
      "deref h w = Some (TypesArr ws)" "deref h b = Some (TypesArr bs)"
      "cp = \<lparr>cap_w = ws, cap_b = bs\<rparr>"
    by (auto simp: capturedAt_def typesAt_def split: option.splits obj.splits)
  from spread_extends[OF c(2)] obtain h1 w' where
    w: "spread h w = Some (h1, w')" "extends h h1" "deref h1 w' = Some (TypesArr ws)"
    by blast
  from spread_extends[OF deref_extends[OF w(2) c(3)]] obtain h2 b' where
    b: "spread h1 b = Some (h2, b')" "extends h1 h2" "deref h2 b' = Some (TypesArr bs)"
    by blast
  obtain h3 cap' where a: "alloc h2 (CapturedObj w' b') = (h3, cap')" by (cases "alloc h2 (CapturedObj w' b')")
  have "cloneCapturedH h cap = Some (h3, cap')"
    by (simp add: cloneCapturedH_def c(1) w(1) b(1) a)
  moreover have "extends h h3"
    by (rule extends_trans[OF w(2) extends_trans[OF b(2) extends_alloc[OF a]]])
  moreover have "capturedAt h3 cap' = Some cp"
    using deref_alloc[OF a] deref_extends[OF extends_alloc[OF a] b(3)]
      deref_extends[OF extends_trans[OF b(2) extends_alloc[OF a]] w(3)]
    by (simp add: capturedAt_def typesAt_def c(4))
  ultimately show ?thesis using that by blast
qed

lemma cloneStateH_extends:
  assumes st: "stateAt h state = Some s"
  obtains h' newState where "cloneStateH h state = Some (h', newState)" "extends h h'"
    "stateAt h' newState = Some s"
proof -
  from st obtain b c e hist cap nots where
    d: "deref h state = Some (StateObj b (turn s) c e (halfMoveClock s) (fullMoveNumber s) hist
          cap nots (gameOver s) (result s))" and
    f: "boardAt h b = Some (board s)" "castlingAt h c = Some (castling s)"
       "enPassantAt h e = Some (enPassant s)" "historyAt h hist = Some (moveHistory s)"
       "capturedAt h cap = Some (capturedPieces s)" "notationsAt h nots = Some (moveNotations s)"
    by (rule stateAt_fields)
  from f(2) have dc: "deref h c = Some (CastlingObj (castling s))"
    by (auto simp: castlingAt_def split: option.splits obj.splits)
  from f(4) have dh: "deref h hist = Some (HistoryArr (moveHistory s))"
    by (auto simp: historyAt_def split: option.splits obj.splits)
  from f(6) have dn: "deref h nots = Some (NotationsArr (moveNotations s))"
    by (auto simp: notationsAt_def split: option.splits obj.splits)
  from cloneBoardH_extends[OF f(1)] obtain h1 b' where
    1: "cloneBoardH h b = Some (h1, b')" "extends h h1" "boardAt h1 b' = Some (board s)"
    by blast
  from spread_extends[OF deref_extends[OF 1(2) dc]] obtain h2 c' where
    2: "spread h1 c = Some (h2, c')" "extends h1 h2" "deref h2 c' = Some (CastlingObj (castling s))"
    by blast
  note e2 = extends_trans[OF 1(2) 2(2)]
  from cloneEnPassantH_extends[OF enPassantAt_extends[OF e2 f(3)]] obtain h3 e' where
    3: "cloneEnPassantH h2 e = Some (h3, e')" "extends h2 h3" "enPassantAt h3 e' = Some (enPassant s)"
    by blast
  note e3 = extends_trans[OF e2 3(2)]
  from spread_extends[OF deref_extends[OF e3 dh]] obtain h4 hist' where
    4: "spread h3 hist = Some (h4, hist')" "extends h3 h4"
       "deref h4 hist' = Some (HistoryArr (moveHistory s))"
    by blast
  note e4 = extends_trans[OF e3 4(2)]
  from cloneCapturedH_extends[OF capturedAt_extends[OF e4 f(5)]] obtain h5 cap' where
    5: "cloneCapturedH h4 cap = Some (h5, cap')" "extends h4 h5"
       "capturedAt h5 cap' = Some (capturedPieces s)"
    by blast
  note e5 = extends_trans[OF e4 5(2)]
  from spread_extends[OF deref_extends[OF e5 dn]] obtain h6 nots' where
    6: "spread h5 nots = Some (h6, nots')" "extends h5 h6"
       "deref h6 nots' = Some (NotationsArr (moveNotations s))"
    by blast
  note e6 = extends_trans[OF e5 6(2)]
  let ?obj = "StateObj b' (turn s) c' e' (halfMoveClock s) (fullMoveNumber s) hist' cap' nots'
                (gameOver s) (result s)"
  obtain h7 newState where 7: "alloc h6 ?obj = (h7, newState)" by (cases "alloc h6 ?obj")
  note x7 = extends_alloc[OF 7]
  note x6 = extends_trans[OF 6(2) x7]
  note x5 = extends_trans[OF 5(2) x6]
  note x4 = extends_trans[OF 4(2) x5]
  note x3 = extends_trans[OF 3(2) x4]
  note x2 = extends_trans[OF 2(2) x3]
  have c: "cloneStateH h state = Some (h7, newState)"
    by (simp add: cloneStateH_def d 1(1) 2(1) 3(1) 4(1) 5(1) 6(1) 7)
  have ext: "extends h h7" by (rule extends_trans[OF e6 x7])
  have "stateAt h7 newState = Some s"
  proof (rule stateAt_intro)
    show "deref h7 newState = Some ?obj" by (rule deref_alloc[OF 7])
    show "boardAt h7 b' = Some (board s)" by (rule boardAt_extends[OF x2 1(3)])
    show "castlingAt h7 c' = Some (castling s)"
      using deref_extends[OF x3 2(3)] by (simp add: castlingAt_def)
    show "enPassantAt h7 e' = Some (enPassant s)" by (rule enPassantAt_extends[OF x4 3(3)])
    show "historyAt h7 hist' = Some (moveHistory s)"
      using deref_extends[OF x5 4(3)] by (simp add: historyAt_def)
    show "capturedAt h7 cap' = Some (capturedPieces s)" by (rule capturedAt_extends[OF x6 5(3)])
    show "notationsAt h7 nots' = Some (moveNotations s)"
      using deref_extends[OF x7 6(3)] by (simp add: notationsAt_def)
  qed
  with c ext that show ?thesis by blast
qed

lemma cellsAt_nth:
  "cellsAt h cells = Some ps \<Longrightarrow>
     length ps = length cells \<and> (\<forall>k < length cells. (cells ! k = None) = (ps ! k = None))"
proof (induction cells arbitrary: ps)
  case Nil
  then show ?case by simp
next
  case (Cons c cells)
  then obtain x ps' where ps: "ps = x # ps'" "cellsAt h cells = Some ps'" "(c = None) = (x = None)"
    by (cases c) (auto split: option.splits obj.splits)
  from Cons.IH[OF ps(2)] ps(1,3) show ?case by (auto simp: nth_Cons split: nat.splits)
qed

lemma rowsAt_nth:
  "rowsAt h rows = Some pss \<Longrightarrow>
     length pss = length rows
     \<and> (\<forall>r < length rows. \<exists>cells. deref h (rows ! r) = Some (RowArr cells)
            \<and> cellsAt h cells = Some (pss ! r))"
proof (induction rows arbitrary: pss)
  case Nil
  then show ?case by simp
next
  case (Cons a rows)
  then obtain cells ps pss' where r: "deref h a = Some (RowArr cells)" "cellsAt h cells = Some ps"
      "rowsAt h rows = Some pss'" "pss = ps # pss'"
    by (auto split: option.splits obj.splits)
  from Cons.IH[OF r(3)] r(1,2,4) show ?case by (auto simp: nth_Cons split: nat.splits)
qed

lemma originPiece_board:
  assumes st: "stateAt h a = Some s" and r: "row (mfrom m) < 8"
  shows "\<exists>x. originPiece h a m = Some x
            \<and> (x = None \<longleftrightarrow> board s (row (mfrom m)) (col (mfrom m)) = None)"
proof -
  from st obtain b c e hist cap nots where
    d: "deref h a = Some (StateObj b (turn s) c e (halfMoveClock s) (fullMoveNumber s) hist
          cap nots (gameOver s) (result s))" and
    f: "boardAt h b = Some (board s)"
    by (rule stateAt_fields)
  from f obtain rows pss where b: "deref h b = Some (BoardArr rows)" "length rows = 8"
      "rowsAt h rows = Some pss" "board s = boardOfRows pss"
    by (auto simp: boardAt_def split: option.splits obj.splits if_splits)
  from rowsAt_nth[OF b(3)] r b(2) obtain cells where
    c: "length pss = 8" "deref h (rows ! row (mfrom m)) = Some (RowArr cells)"
       "cellsAt h cells = Some (pss ! row (mfrom m))"
    by auto
  from cellsAt_nth[OF c(3)] have
    n: "length (pss ! row (mfrom m)) = length cells"
       "\<And>k. k < length cells \<Longrightarrow> (cells ! k = None) = (pss ! row (mfrom m) ! k = None)"
    by auto
  have o: "originPiece h a m = Some (if col (mfrom m) < length cells then cells ! col (mfrom m) else None)"
    using r b(2) c(2) by (simp add: originPiece_def d b(1) nthOpt_def)
  have bs: "board s (row (mfrom m)) (col (mfrom m))
            = (if col (mfrom m) < length cells then pss ! row (mfrom m) ! col (mfrom m) else None)"
    using r c(1) n(1) by (simp add: b(4) boardOfRows_def)
  show ?thesis
  proof (cases "col (mfrom m) < length cells")
    case True
    with o bs n(2)[OF True] show ?thesis by simp
  next
    case False
    with o bs show ?thesis by simp
  qed
qed

lemma makeMoveEntry_ok:
  assumes st: "stateAt h state = Some s" and r: "row (mfrom m) < 8"
  shows "\<exists>h' x. makeMoveEntry h state m = Some (h', x)
            \<and> (x = ReturnNull \<longleftrightarrow> board s (row (mfrom m)) (col (mfrom m)) = None)
            \<and> extends h h' \<and> stateAt h' state = Some s"
proof -
  from cloneStateH_extends[OF st] obtain h' newState where
    c: "cloneStateH h state = Some (h', newState)" "extends h h'" "stateAt h' newState = Some s"
    by blast
  from originPiece_board[OF c(3) r] obtain x where
    x: "originPiece h' newState m = Some x"
       "(x = None) = (board s (row (mfrom m)) (col (mfrom m)) = None)"
    by auto
  let ?x = "case x of None \<Rightarrow> ReturnNull | Some piece \<Rightarrow> Continue newState piece"
  have 1: "makeMoveEntry h state m = Some (h', ?x)"
    by (simp add: makeMoveEntry_def c(1) x(1) split: option.splits)
  have 2: "?x = ReturnNull \<longleftrightarrow> board s (row (mfrom m)) (col (mfrom m)) = None"
    using x(2) by (cases x) simp_all
  note 3 = stateAt_extends[OF c(2) st]
  from 1 2 c(2) 3 show ?thesis by (intro exI[of _ h'] exI[of _ ?x] conjI)
qed

lemma makeMoveEntry_fault:
  assumes st: "stateAt h state = Some s" and r: "8 \<le> row (mfrom m)"
  shows "makeMoveEntry h state m = None"
proof -
  from cloneStateH_extends[OF st] obtain h' newState where
    c: "cloneStateH h state = Some (h', newState)" "stateAt h' newState = Some s"
    by blast
  from c(2) obtain b c' e hist cap nots where
    d: "deref h' newState = Some (StateObj b (turn s) c' e (halfMoveClock s) (fullMoveNumber s) hist
          cap nots (gameOver s) (result s))" and
    f: "boardAt h' b = Some (board s)"
    by (rule stateAt_fields)
  from f obtain rows where b: "deref h' b = Some (BoardArr rows)" "length rows = 8"
    by (auto simp: boardAt_def split: option.splits obj.splits if_splits)
  have "originPiece h' newState m = None"
    using r b(2) by (simp add: originPiece_def d b(1) nthOpt_def)
  then show ?thesis by (simp add: makeMoveEntry_def c(1))
qed

section \<open>The claims\<close>

text \<open>
  C1. \<open>getLegalMoves(s, c)\<close> returns a list (the colour may be left out, it is then the
  side to move), and every move of the list, applied by \<open>applyMoveToBoard\<close> to a copy of
  the board of \<open>s\<close>, applies without a fault and gives a board on which \<open>isInCheck\<close>
  is false for that colour.
\<close>

theorem getLegalMoves_closure:
  "\<exists>l. getLegalMoves s co = Some l
       \<and> (\<forall>m\<in>set l. \<exists>b'. applyMoveToBoard (cloneBoard (board s)) m = Some b'
              \<and> \<not> isInCheck b' (case co of None \<Rightarrow> turn s | Some c \<Rightarrow> c))"
proof -
  obtain l where l: "getLegalMoves s co = Some l" using getLegalMoves_total by blast
  then have "legalLoop (board s) (case co of None \<Rightarrow> turn s | Some c \<Rightarrow> c)
               (getPseudoMoves s (case co of None \<Rightarrow> turn s | Some c \<Rightarrow> c)) = Some l"
    by (simp add: getLegalMoves_def Let_def)
  from legalLoop_sound[OF this] l show ?thesis by blast
qed

theorem getLegalMoves_closure_witness:
  "\<exists>l. getLegalMoves (stateOf pinned White) (Some White) = Some l
       \<and> plainMove (sq 6 4) (sq 0 4) \<in> set l
       \<and> plainMove (sq 6 4) (sq 6 3) \<notin> set l
       \<and> (\<exists>b'. applyMoveToBoard (cloneBoard (board (stateOf pinned White)))
                  (plainMove (sq 6 4) (sq 0 4)) = Some b' \<and> \<not> isInCheck b' White)"
proof -
  have e: "(case getLegalMoves (stateOf pinned White) (Some White) of
              None \<Rightarrow> False
            | Some l \<Rightarrow> List.member l (plainMove (sq 6 4) (sq 0 4))
                        \<and> \<not> List.member l (plainMove (sq 6 4) (sq 6 3)))"
    by code_simp
  from getLegalMoves_closure[of "stateOf pinned White" "Some White"] obtain l where
    l: "getLegalMoves (stateOf pinned White) (Some White) = Some l"
       "\<forall>m\<in>set l. \<exists>b'. applyMoveToBoard (cloneBoard (board (stateOf pinned White))) m = Some b'
              \<and> \<not> isInCheck b' White"
    by auto
  from e l(1) have m: "plainMove (sq 6 4) (sq 0 4) \<in> set l" "plainMove (sq 6 4) (sq 6 3) \<notin> set l"
    by simp_all
  with l show ?thesis by blast
qed

text \<open>
  C2, as amended. For every state \<open>s\<close> and every move \<open>m\<close> whose two squares have
  their rows on the board (0..7), \<open>makeMove\<close> raises no fault, and it returns \<open>null\<close>
  (no new state) if and only if the origin square of \<open>s\<close>'s board is empty. The input
  state is left as it was: on every heap that holds \<open>s\<close> at an address, the statements of
  \<open>makeMove\<close> up to that \<open>return null\<close> raise no fault, return \<open>null\<close> there exactly
  when \<open>makeMove\<close> does, and leave a heap that holds every object of the old one
  unchanged, with \<open>s\<close> still at its address.
\<close>

theorem makeMove_failure:
  assumes "row (mfrom m) < 8" and "row (mto m) < 8"
  shows "makeMove s m \<noteq> None
         \<and> (makeMove s m = Some None \<longleftrightarrow> board s (row (mfrom m)) (col (mfrom m)) = None)
         \<and> (\<forall>h state. stateAt h state = Some s \<longrightarrow>
               (\<exists>h' x. makeMoveEntry h state m = Some (h', x)
                  \<and> (x = ReturnNull \<longleftrightarrow> makeMove s m = Some None)
                  \<and> extends h h' \<and> stateAt h' state = Some s))"
proof (intro conjI allI impI)
  show "makeMove s m \<noteq> None" using assms by (simp add: makeMove_fault_iff)
  show n: "makeMove s m = Some None \<longleftrightarrow> board s (row (mfrom m)) (col (mfrom m)) = None"
    using assms by (simp add: makeMove_null_iff)
  fix h state
  assume "stateAt h state = Some s"
  from makeMoveEntry_ok[OF this assms(1)] show
    "\<exists>h' x. makeMoveEntry h state m = Some (h', x)
        \<and> (x = ReturnNull \<longleftrightarrow> makeMove s m = Some None)
        \<and> extends h h' \<and> stateAt h' state = Some s"
    unfolding n .
qed

theorem makeMove_failure_witness:
  "\<exists>s h'. stateAt kinglessHeap 17 = Some s
     \<and> row (mfrom (plainMove (sq 3 3) (sq 3 7))) < 8 \<and> row (mto (plainMove (sq 3 3) (sq 3 7))) < 8
     \<and> board s 3 3 = None
     \<and> makeMove s (plainMove (sq 3 3) (sq 3 7)) = Some None
     \<and> makeMoveEntry kinglessHeap 17 (plainMove (sq 3 3) (sq 3 7)) = Some (h', ReturnNull)
     \<and> extends kinglessHeap h' \<and> stateAt h' 17 = Some s"
proof -
  let ?m = "plainMove (sq 3 3) (sq 3 7)"
  have e: "(case stateAt kinglessHeap 17 of None \<Rightarrow> False | Some s \<Rightarrow> board s 3 3 = None)"
    by code_simp
  then obtain s where s: "stateAt kinglessHeap 17 = Some s" "board s 3 3 = None"
    by (auto split: option.splits)
  have r1: "row (mfrom ?m) < 8" by (simp add: plainMove_def sq_def)
  have r2: "row (mto ?m) < 8" by (simp add: plainMove_def sq_def)
  have e': "board s (row (mfrom ?m)) (col (mfrom ?m)) = None"
    using s(2) by (simp add: plainMove_def sq_def)
  note T = makeMove_failure[OF r1 r2, of s]
  from T e' have null: "makeMove s ?m = Some None" by blast
  from T s(1) null obtain h' where
    h: "makeMoveEntry kinglessHeap 17 ?m = Some (h', ReturnNull)" "extends kinglessHeap h'"
       "stateAt h' 17 = Some s"
    by blast
  from s r1 r2 null h show ?thesis by (intro exI[of _ s] exI[of _ h'] conjI)
qed

text \<open>
  C2 as stated, for every move, fails on a row that the board does not have:
  \<open>newState.board[8]\<close> is \<open>undefined\<close> and indexing it throws a TypeError. With the
  origin on row 8 the read of the origin throws; with a rook on the origin c5 and the
  destination on row 8 the read of the destination does.
\<close>

theorem makeMove_failure_counterexample:
  "makeMove (stateOf kingless White) (plainMove (sq 8 0) (sq 3 7)) = None
   \<and> board (stateOf kingless White) 3 2 = Some \<lparr>color = White, type = Rook\<rparr>
   \<and> makeMove (stateOf kingless White) (plainMove (sq 3 2) (sq 8 2)) = None"
  by (simp add: makeMove_fault_iff plainMove_def sq_def stateOf_def kingless_def boardOfRows_def)

text \<open>
  C3. For every well-formed FEN string (\<open>wf_fen\<close>: the six fields of the standard
  grammar, which every FEN of a legal reachable position satisfies), \<open>stateFromFEN\<close>
  returns a state, and \<open>boardToFEN\<close> of that state is the string itself, character for
  character.
\<close>

theorem fen_roundtrip:
  assumes "wf_fen fen"
  shows "\<exists>st. stateFromFEN fen = Some st \<and> boardToFEN st = fen"
proof -
  from assms obtain p0 p1 p2 p3 p4 p5 where
    parts: "splitOn CHR '' '' fen = [p0, p1, p2, p3, p4, p5]"
    by (auto simp: wf_fen_def split: list.splits)
  with assms have
    rows: "length (splitOn CHR ''/'' p0) = 8" "list_all wfRank (splitOn CHR ''/'' p0)" and
    active: "p1 = ''w'' \<or> p1 = ''b''" and
    castle: "p2 = ''-'' \<or> (p2 \<noteq> [] \<and> List.member (subseqs ''KQkq'') p2)" and
    ep: "p3 = ''-'' \<or> (case p3 of [f, d] \<Rightarrow> List.member ''abcdefgh'' f \<and> List.member ''12345678'' d
                                       | _ \<Rightarrow> False)" and
    nums: "wfNumber p4" "wfNumber p5" "p5 \<noteq> ''0''"
    by (simp_all add: wf_fen_def Let_def del: subseqs.simps List.member_iff)
  have fen: "fen = p0 @ '' '' @ p1 @ '' '' @ p2 @ '' '' @ p3 @ '' '' @ p4 @ '' '' @ p5"
    using joinWith_splitOn[of "CHR '' ''" fen] by (simp add: parts)
  from fen_placement[OF rows] obtain cs where
    cs: "parseRows (splitOn CHR ''/'' p0) [0..<8] = Some cs" and
    pl: "concat (map (\<lambda>r. fenRow (map (boardOfRows cs r) [0..<8]) 0
                                 @ (if r < 7 then ''/'' else [])) [0..<8]) = p0"
    by (auto simp: joinWith_splitOn)
  from castle_roundtrip[OF castle] have c2: "p2 \<noteq> []" "castleOut p2 = p2" by simp_all
  from enPassant_roundtrip[OF ep] obtain e where
    e: "parseEnPassant (Some p3) = Some e"
       "(case e of Some x \<Rightarrow> '' '' @ colLetter (col x) # showInt (8 - int (row x))
                        | None \<Rightarrow> '' -'') = '' '' @ p3"
    by blast
  from number_roundtrip[OF nums(1)] have n4: "plainNumber p4"
    "parseInt p4 = Some (int (digitsVal p4))" "showInt (int (digitsVal p4)) = p4" by simp_all
  from number_roundtrip[OF nums(2)] nums(3) have n5: "plainNumber p5"
    "parseInt p5 = Some (int (digitsVal p5))" "showInt (int (digitsVal p5)) = p5"
    "digitsVal p5 \<noteq> 0" by simp_all
  let ?cr = "\<lparr>wK = CHR ''K'' \<in> set p2, wQ = CHR ''Q'' \<in> set p2,
              bK = CHR ''k'' \<in> set p2, bQ = CHR ''q'' \<in> set p2\<rparr>"
  let ?st = "\<lparr>board = boardOfRows cs, turn = (if p1 = ''w'' then White else Black),
               castling = ?cr, enPassant = e,
               halfMoveClock = int (digitsVal p4), fullMoveNumber = int (digitsVal p5),
               moveHistory = [], capturedPieces = \<lparr>cap_w = [], cap_b = []\<rparr>,
               moveNotations = [], gameOver = False, result = None\<rparr>"
  have nth: "nthOpt [p0, p1, p2, p3, p4, p5] 1 = Some p1" "nthOpt [p0, p1, p2, p3, p4, p5] 2 = Some p2"
    "nthOpt [p0, p1, p2, p3, p4, p5] 3 = Some p3" "nthOpt [p0, p1, p2, p3, p4, p5] 4 = Some p4"
    "nthOpt [p0, p1, p2, p3, p4, p5] 5 = Some p5" "[p0, p1, p2, p3, p4, p5] ! 0 = p0"
    by (simp_all add: nthOpt_def)
  have p1ne: "p1 \<noteq> []" using active by auto
  have parse: "stateFromFEN fen = Some ?st"
    unfolding stateFromFEN_def parseFEN_def Let_def parts nth
    using cs e(1) n4(1,2) n5(1,2,4) c2(1) p1ne by simp
  have t: "(if turn ?st = White then ''w'' else ''b'') = p1" using active by auto
  have c: "(let castle = (if wK (castling ?st) then ''K'' else [])
                             @ (if wQ (castling ?st) then ''Q'' else [])
                             @ (if bK (castling ?st) then ''k'' else [])
                             @ (if bQ (castling ?st) then ''q'' else [])
                in if castle = [] then ''-'' else castle) = p2"
    using c2(2) by (simp add: castleOut_def)
  have b: "concat (map (\<lambda>r. fenRow (map (board ?st r) [0..<8]) 0 @ (if r < 7 then ''/'' else [])) [0..<8])
             = p0"
    using pl by simp
  have ep': "(case enPassant ?st of
          Some ep \<Rightarrow> '' '' @ colLetter (col ep) # showInt (8 - int (row ep))
        | None \<Rightarrow> '' -'') = '' '' @ p3"
    using e(2) by simp
  have h: "showInt (halfMoveClock ?st) = p4" "showInt (fullMoveNumber ?st) = p5"
    using n4(3) n5(3) by simp_all
  have "boardToFEN ?st = fen"
    unfolding boardToFEN_def b t c ep' h fen by simp
  with parse show ?thesis by blast
qed

theorem fen_roundtrip_witness:
  "wf_fen ''rnbqkbnr/ppp1pppp/8/8/3pP3/8/PPPP1PPP/RNBQKBNR b KQkq e3 0 3''
   \<and> (\<exists>st. stateFromFEN ''rnbqkbnr/ppp1pppp/8/8/3pP3/8/PPPP1PPP/RNBQKBNR b KQkq e3 0 3'' = Some st
          \<and> boardToFEN st = ''rnbqkbnr/ppp1pppp/8/8/3pP3/8/PPPP1PPP/RNBQKBNR b KQkq e3 0 3'')"
proof -
  have w: "wf_fen ''rnbqkbnr/ppp1pppp/8/8/3pP3/8/PPPP1PPP/RNBQKBNR b KQkq e3 0 3''"
    by code_simp
  from fen_roundtrip[OF w] w show ?thesis by blast
qed

text \<open>
  C4. The code clears a right on a rook move from column 0 or 7 of any row, and on the
  capture of a rook on column 0 or 7 of any row: \<open>updateCastling\<close> tests the column and
  never the row. In the position \<open>4k3/8/8/8/R7/8/8/R3K3 w Q\<close> the move of the rook from
  a4 to b4 clears White's queen-side right, though neither the king nor the rook of a1 has
  moved.
\<close>

theorem makeMove_castling_rook_off_home_rank:
  "\<exists>s'. makeMove twoRooks (plainMove (sq 4 0) (sq 4 1)) = Some (Some s')
        \<and> wQ (castling twoRooks) \<and> \<not> wQ (castling s')"
proof -
  let ?m = "plainMove (sq 4 0) (sq 4 1)"
  have sqs: "row (mfrom ?m) = 4" "col (mfrom ?m) = 0" "row (mto ?m) = 4" "col (mto ?m) = 1"
    by (simp_all add: plainMove_def sq_def)
  have b: "board twoRooks 4 0 = Some \<lparr>color = White, type = Rook\<rparr>"
    by (simp add: twoRooks_def stateOf_def boardOfRows_def)
  obtain s' where s': "makeMove twoRooks ?m = Some (Some s')"
    using makeMove_succeeds[of ?m twoRooks] b by (auto simp: sqs)
  from makeMove_castling[OF s'] b
  have "castling s' = updateCastling (castling twoRooks) ?m \<lparr>color = White, type = Rook\<rparr>
                        (board twoRooks 4 1)"
    by (simp add: sqs)
  then have "\<not> wQ (castling s')"
    by (simp add: updateCastling_def clearRight_def sqs Let_def twoRooks_def stateOf_def
          boardOfRows_def)
  moreover have "wQ (castling twoRooks)" by (simp add: twoRooks_def)
  ultimately show ?thesis using s' by blast
qed

text \<open>
  C5, as amended. \<open>makeMove\<close> sets the turn from the piece it moved, not from the turn of
  the state: when \<open>makeMove(s, m)\<close> succeeds, the origin square of \<open>s\<close> holds a piece and
  the new turn is the opponent of that piece's colour. It is \<open>opponent(s.turn)\<close> for every
  move that \<open>getLegalMoves(s)\<close> returns.
\<close>

theorem makeMove_turn:
  assumes "makeMove s m = Some (Some s')"
  shows "(\<exists>p. board s (row (mfrom m)) (col (mfrom m)) = Some p \<and> turn s' = opponent (color p))
         \<and> (\<forall>l. getLegalMoves s None = Some l \<and> m \<in> set l \<longrightarrow> turn s' = opponent (turn s))"
proof -
  from assms obtain p where
    p: "board s (row (mfrom m)) (col (mfrom m)) = Some p" and t: "turn s' = opponent (color p)"
    by (auto elim!: makeMove_cases)
  have "turn s' = opponent (turn s)" if "getLegalMoves s None = Some l" "m \<in> set l" for l
  proof -
    from getLegalMoves_pseudo[OF that] have "m \<in> set (getPseudoMoves s (turn s))" by simp
    from getPseudoMoves_wf[OF this] p have "color p = turn s" by auto
    with t show ?thesis by simp
  qed
  with p t show ?thesis by blast
qed

theorem makeMove_turn_witness:
  "\<exists>s' l. makeMove (stateOf pawnEnding White) (plainMove (sq 7 4) (sq 6 4)) = Some (Some s')
     \<and> getLegalMoves (stateOf pawnEnding White) None = Some l
     \<and> plainMove (sq 7 4) (sq 6 4) \<in> set l
     \<and> turn s' = Black"
proof -
  have "board (stateOf pawnEnding White) 7 4 = Some \<lparr>color = White, type = King\<rparr>"
    by (simp add: stateOf_def pawnEnding_def boardOfRows_def)
  then obtain s' where
    s': "makeMove (stateOf pawnEnding White) (plainMove (sq 7 4) (sq 6 4)) = Some (Some s')"
    using makeMove_succeeds[of "plainMove (sq 7 4) (sq 6 4)" "stateOf pawnEnding White"]
    by (auto simp: plainMove_def sq_def)
  obtain l where l: "getLegalMoves (stateOf pawnEnding White) None = Some l"
    using getLegalMoves_total by blast
  have "(case getLegalMoves (stateOf pawnEnding White) None of
              None \<Rightarrow> False
            | Some l \<Rightarrow> List.member l (plainMove (sq 7 4) (sq 6 4)))"
    by code_simp
  with l have m: "plainMove (sq 7 4) (sq 6 4) \<in> set l" by simp
  from makeMove_turn[OF s'] l m have "turn s' = opponent (turn (stateOf pawnEnding White))"
    by blast
  then have "turn s' = Black" by (simp add: stateOf_def opponent_def)
  with s' l m show ?thesis by blast
qed

text \<open>
  C5 as stated fails: with White to move, \<open>makeMove\<close> moves the black pawn from a7 to a6
  and leaves the turn with White.
\<close>

theorem makeMove_turn_counterexample:
  "\<not> (\<forall>s m s'. makeMove s m = Some (Some s') \<longrightarrow> turn s' = opponent (turn s))"
proof
  assume a: "\<forall>s m s'. makeMove s m = Some (Some s') \<longrightarrow> turn s' = opponent (turn s)"
  have b: "board (stateOf pawnEnding White) 1 0 = Some \<lparr>color = Black, type = Pawn\<rparr>"
    by (simp add: stateOf_def pawnEnding_def boardOfRows_def)
  then obtain s' where
    s': "makeMove (stateOf pawnEnding White) (plainMove (sq 1 0) (sq 2 0)) = Some (Some s')"
    using makeMove_succeeds[of "plainMove (sq 1 0) (sq 2 0)" "stateOf pawnEnding White"]
    by (auto simp: plainMove_def sq_def)
  from s' b have "turn s' = opponent Black"
    by (auto elim!: makeMove_cases simp: plainMove_def sq_def)
  moreover from a s' have "turn s' = opponent (turn (stateOf pawnEnding White))" by blast
  ultimately show False by (simp add: stateOf_def opponent_def)
qed

text \<open>
  C6, as amended. For every depth of at least 1 and every state whose \<open>gameOver\<close> is
  false: \<open>getLegalMoves(s)\<close> returns a list; when it is empty \<open>getBestMove(s, d)\<close>
  returns no move, and when it is not, \<open>getBestMove(s, d)\<close> returns one of its moves.
\<close>

theorem getBestMove_legal:
  assumes "0 < d" and "\<not> gameOver s"
  shows "\<exists>l. getLegalMoves s None = Some l
           \<and> (l = [] \<longrightarrow> getBestMove s d = Some None)
           \<and> (l \<noteq> [] \<longrightarrow> (\<exists>m\<in>set l. getBestMove s d = Some (Some m)))"
proof -
  let ?mx = "turn s = White"
  obtain legal where legal: "getLegalMoves s None = Some legal"
    using getLegalMoves_total by blast
  obtain moves where moves: "orderMoves s legal = Some moves"
    using orderMoves_legal[OF legal] by blast
  note om = orderMoves_set[OF moves]
  have go: "\<not> (d = 0 \<or> gameOver s)" using assms by simp
  have ab: "NegInf < PosInf" by (simp add: less_score_def)
  obtain v mv where v: "minimax s d NegInf PosInf ?mx = Some (v, mv)"
    using minimax_total[OF ab] by blast
  have gb: "getBestMove s d = Some mv" by (simp add: getBestMove_def v)
  show ?thesis
  proof (cases "legal = []")
    case True
    with om have "length moves = 0" by simp
    with go legal moves v have "mv = None"
      by (subst (asm) minimax.simps) (auto split: if_splits)
    with gb legal True show ?thesis by simp
  next
    case False
    with om have ne: "length moves \<noteq> 0" by auto
    then have hd: "moves ! 0 \<in> set moves" by simp
    have "\<exists>m\<in>set moves. mv = Some m"
    proof (cases ?mx)
      case True
      with go legal moves ne v obtain vm where
        "maxLoop s (d - 1) moves NegInf PosInf NegInf (moves ! 0) = Some (v, vm)" "mv = Some vm"
        by (subst (asm) minimax.simps) auto
      with maxLoop_mono[OF this(1)] hd show ?thesis by auto
    next
      case mn: False
      with go legal moves ne v obtain vm where
        "minLoop s (d - 1) moves NegInf PosInf PosInf (moves ! 0) = Some (v, vm)" "mv = Some vm"
        by (subst (asm) minimax.simps) auto
      with minLoop_mono[OF this(1)] hd show ?thesis by auto
    qed
    with om gb legal False show ?thesis by auto
  qed
qed

theorem getBestMove_legal_witness:
  "(0::nat) < 1 \<and> \<not> gameOver (stateOf pawnEnding White)
   \<and> (\<exists>l m. getLegalMoves (stateOf pawnEnding White) None = Some l \<and> l \<noteq> [] \<and> m \<in> set l
          \<and> getBestMove (stateOf pawnEnding White) 1 = Some (Some m))"
proof -
  have d: "(0::nat) < 1" by simp
  have g: "\<not> gameOver (stateOf pawnEnding White)" by (simp add: stateOf_def)
  have e: "(case getLegalMoves (stateOf pawnEnding White) None of
              None \<Rightarrow> False | Some l \<Rightarrow> l \<noteq> [])"
    by code_simp
  from getBestMove_legal[OF d g] obtain l where
    l: "getLegalMoves (stateOf pawnEnding White) None = Some l"
       "l \<noteq> [] \<longrightarrow> (\<exists>m\<in>set l. getBestMove (stateOf pawnEnding White) 1 = Some (Some m))"
    by blast
  from e l(1) have "l \<noteq> []" by simp
  with l d g show ?thesis by blast
qed

text \<open>
  C6 as stated fails where the guard \<open>depth === 0 || state.gameOver\<close> of \<open>minimax\<close>
  answers first: at depth 0, and on a game that is over (here by the 50-move rule),
  \<open>getBestMove\<close> returns no move though the side to move has legal moves.
\<close>

theorem getBestMove_legal_counterexample:
  "getBestMove (stateOf pawnEnding White) 0 = Some None
   \<and> (\<exists>l. getLegalMoves (stateOf pawnEnding White) None = Some l \<and> l \<noteq> [])
   \<and> getBestMove fiftyMoves 3 = Some None
   \<and> (\<exists>l. getLegalMoves fiftyMoves None = Some l \<and> l \<noteq> [])"
proof -
  have e: "(case getLegalMoves (stateOf pawnEnding White) None of
              None \<Rightarrow> False | Some l \<Rightarrow> l \<noteq> [])"
    by code_simp
  then have l1: "\<exists>l. getLegalMoves (stateOf pawnEnding White) None = Some l \<and> l \<noteq> []"
    by (cases "getLegalMoves (stateOf pawnEnding White) None") auto
  have "getLegalMoves fiftyMoves None = getLegalMoves (stateOf pawnEnding White) None"
    by (rule getLegalMoves_fields) (simp_all add: fiftyMoves_def)
  with l1 have l2: "\<exists>l. getLegalMoves fiftyMoves None = Some l \<and> l \<noteq> []" by simp
  have b1: "getBestMove (stateOf pawnEnding White) 0 = Some None"
    by (simp add: getBestMove_def minimax.simps)
  have "gameOver fiftyMoves" by (simp add: fiftyMoves_def)
  then have b2: "getBestMove fiftyMoves 3 = Some None"
    by (simp add: getBestMove_def minimax.simps)
  from b1 l1 b2 l2 show ?thesis by blast
qed

text \<open>
  C7. For every state, depth and maximizing flag, the search with pruning, started with the
  window \<open>(-Infinity, +Infinity)\<close>, and the same recursion without the two breaks both
  return, and they return the same score.
\<close>

theorem alpha_beta_equivalence:
  "\<exists>v m m'. minimax s d NegInf PosInf mx = Some (v, m) \<and> minimaxFull s d mx = Some (v, m')"
proof -
  obtain u mu where u: "minimaxFull s d mx = Some (u, mu)"
    using full_total(1)[of s d mx] by auto
  have "NegInf < PosInf" by (simp add: less_score_def)
  from pruned_agrees(1)[OF this u] obtain v mv where
    v: "minimax s d NegInf PosInf mx = Some (v, mv)" and "agrees NegInf PosInf v u" by blast
  then have "v = u" by (simp add: agrees_full_window)
  with u v show ?thesis by blast
qed

text \<open>
  C8, as amended. For every board and every move with its rows on the board that carries
  the en-passant flag, no castling flag and no promotion, and whose destination is on
  another row than its origin: \<open>applyMoveToBoard\<close> empties the square at the origin's row
  and the destination's column, empties the origin, puts the piece of the origin on the
  destination, and leaves every other square unchanged.
\<close>

theorem applyMoveToBoard_enPassant:
  assumes "isEnPassant m" and "castlingSide m = None" and "promotion m = None"
    and "row (mfrom m) < 8" and "row (mto m) < 8" and "row (mto m) \<noteq> row (mfrom m)"
  shows "\<exists>b'. applyMoveToBoard b m = Some b'
           \<and> b' (row (mfrom m)) (col (mto m)) = None
           \<and> b' (row (mfrom m)) (col (mfrom m)) = None
           \<and> b' (row (mto m)) (col (mto m)) = b (row (mfrom m)) (col (mfrom m))
           \<and> (\<forall>r k. (r, k) \<noteq> (row (mfrom m), col (mto m)) \<and> (r, k) \<noteq> (row (mfrom m), col (mfrom m))
                     \<and> (r, k) \<noteq> (row (mto m), col (mto m)) \<longrightarrow> b' r k = b r k)"
  using assms by (auto simp: applyMoveToBoard_def Let_def put_def)

theorem applyMoveToBoard_enPassant_witness:
  "isEnPassant (epMove (sq 3 4) (sq 2 5)) \<and> castlingSide (epMove (sq 3 4) (sq 2 5)) = None
   \<and> promotion (epMove (sq 3 4) (sq 2 5)) = None
   \<and> (\<exists>b'. applyMoveToBoard fifthRank (epMove (sq 3 4) (sq 2 5)) = Some b'
          \<and> b' 3 5 = None \<and> b' 3 4 = None \<and> b' 2 5 = Some \<lparr>color = White, type = Pawn\<rparr>
          \<and> b' 3 7 = fifthRank 3 7)"
proof -
  let ?m = "epMove (sq 3 4) (sq 2 5)"
  have h: "isEnPassant ?m" "castlingSide ?m = None" "promotion ?m = None"
    "row (mfrom ?m) < 8" "row (mto ?m) < 8" "row (mto ?m) \<noteq> row (mfrom ?m)"
    by (simp_all add: epMove_def plainMove_def sq_def)
  have sqs: "row (mfrom ?m) = 3" "col (mfrom ?m) = 4" "row (mto ?m) = 2" "col (mto ?m) = 5"
    by (simp_all add: epMove_def plainMove_def sq_def)
  have p: "fifthRank 3 4 = Some \<lparr>color = White, type = Pawn\<rparr>"
    by (simp add: fifthRank_def boardOfRows_def)
  from applyMoveToBoard_enPassant[OF h, of fifthRank] obtain b' where
    b': "applyMoveToBoard fifthRank ?m = Some b'" "b' 3 5 = None" "b' 3 4 = None"
        "b' 2 5 = fifthRank 3 4"
        "\<forall>r k. (r, k) \<noteq> (3, 5) \<and> (r, k) \<noteq> (3, 4) \<and> (r, k) \<noteq> (2, 5) \<longrightarrow> b' r k = fifthRank r k"
    unfolding sqs by blast
  from b'(5) have "b' 3 7 = fifthRank 3 7" by simp
  with b' p h show ?thesis by auto
qed

text \<open>
  C8 as stated fails, since \<open>applyMoveToBoard\<close> applies each field of a move on its own
  and checks none: with the castling flag as well, the rook of h5 lands on the square the
  captured pawn left; with a promotion, the destination holds a queen and not the pawn;
  with the destination on the origin's row, the square at the origin's row and the
  destination's column is the destination and holds the pawn.
\<close>

theorem applyMoveToBoard_enPassant_counterexample:
  "(case applyMoveToBoard fifthRank ((epMove (sq 3 4) (sq 2 5))\<lparr>castlingSide := Some KingSide\<rparr>) of
      None \<Rightarrow> False
    | Some b' \<Rightarrow> b' 3 5 = Some \<lparr>color = White, type = Rook\<rparr> \<and> b' 3 7 \<noteq> fifthRank 3 7)
   \<and> (case applyMoveToBoard fifthRank ((epMove (sq 3 4) (sq 2 5))\<lparr>promotion := Some Queen\<rparr>) of
      None \<Rightarrow> False
    | Some b' \<Rightarrow> b' 2 5 \<noteq> fifthRank 3 4)
   \<and> (case applyMoveToBoard fifthRank (epMove (sq 3 4) (sq 3 5)) of
      None \<Rightarrow> False
    | Some b' \<Rightarrow> b' 3 5 = Some \<lparr>color = White, type = Pawn\<rparr>)"
  by (simp add: applyMoveToBoard_def Let_def put_def epMove_def plainMove_def sq_def
        fifthRank_def boardOfRows_def)

text \<open>
  C9. For every successful \<open>makeMove\<close> whose resulting state is not already terminal by
  checkmate or stalemate (the game was not over before the move, which is what
  \<open>!newState.gameOver\<close> tests, and the opponent has a legal reply): if the pieces of the
  resulting board other than kings are one white bishop and one black bishop, then with
  the bishops on squares of the same colour (equal parity of row + col) the result has
  \<open>gameOver\<close> true and result Draw; with the bishops on squares of opposite colours
  \<open>isInsufficientMaterial\<close> is false, so that rule sets no draw, and the game is over
  only by the 50-move rule.
\<close>

theorem makeMove_bishops:
  assumes mv: "makeMove s m = Some (Some s')"
    and live: "\<not> gameOver s"
    and replies: "getLegalMoves s' None = Some l" "l \<noteq> []"
    and wb: "r1 < 8" "k1 < 8" "board s' r1 k1 = Some \<lparr>color = White, type = Bishop\<rparr>"
    and bb: "r2 < 8" "k2 < 8" "board s' r2 k2 = Some \<lparr>color = Black, type = Bishop\<rparr>"
    and rest: "\<And>r k p. r < 8 \<Longrightarrow> k < 8 \<Longrightarrow> board s' r k = Some p
                 \<Longrightarrow> type p = King \<or> (r, k) = (r1, k1) \<or> (r, k) = (r2, k2)"
  shows "((r1 + k1) mod 2 = (r2 + k2) mod 2 \<longrightarrow> gameOver s' \<and> result s' = Some Draw)
         \<and> ((r1 + k1) mod 2 \<noteq> (r2 + k2) mod 2 \<longrightarrow>
              \<not> isInsufficientMaterial (board s') \<and> (gameOver s' \<longleftrightarrow> 100 \<le> halfMoveClock s'))"
proof -
  from mv obtain p b' ntn oms where
    oms: "getLegalMoves (movedState s s m p (board s (row (mto m)) (col (mto m))) b')
            (Some (opponent (color p))) = Some oms" and
    s': "s' = adjudicate (movedState s s m p (board s (row (mto m)) (col (mto m))) b') (color p)
            ntn oms (isInCheck b' (opponent (color p)))"
    by (rule makeMove_cases)
  let ?st = "movedState s s m p (board s (row (mto m)) (col (mto m))) b'"
  have "getLegalMoves s' None = getLegalMoves ?st None"
    by (rule getLegalMoves_fields) (simp_all add: s')
  also have "\<dots> = getLegalMoves ?st (Some (opponent (color p)))"
    by (simp add: getLegalMoves_def)
  finally have "oms = l" using oms replies(1) by simp
  with replies(2) have ne: "oms \<noteq> []" by simp
  have lv: "\<not> gameOver ?st" using live by simp
  have bd: "board ?st = board s'" by (simp add: s')
  have hm: "halfMoveClock ?st = halfMoveClock s'" by (simp add: s')
  have ins: "isInsufficientMaterial (board s') \<longleftrightarrow> (r1 + k1) mod 2 = (r2 + k2) mod 2"
    by (rule isInsufficientMaterial_bishops[OF wb bb rest])
  from adjudicate_live[OF lv ne, of "color p" ntn "isInCheck b' (opponent (color p))"]
  have "gameOver s' = (isInsufficientMaterial (board s') \<or> 100 \<le> halfMoveClock s')"
    and "result s' = (if isInsufficientMaterial (board s') \<or> 100 \<le> halfMoveClock s'
                      then Some Draw else result ?st)"
    unfolding bd hm s'[symmetric] by simp_all
  with ins show ?thesis by auto
qed

theorem makeMove_bishops_witness:
  "\<exists>s'. makeMove bishopsLive (plainMove (sq 7 4) (sq 6 4)) = Some (Some s')
       \<and> \<not> gameOver bishopsLive
       \<and> (\<exists>l. getLegalMoves s' None = Some l \<and> l \<noteq> [])
       \<and> board s' 7 2 = Some \<lparr>color = White, type = Bishop\<rparr>
       \<and> board s' 0 5 = Some \<lparr>color = Black, type = Bishop\<rparr>
       \<and> list_all (\<lambda>(r, k). case board s' r k of None \<Rightarrow> True
            | Some p \<Rightarrow> type p = King \<or> (r, k) = (7, 2) \<or> (r, k) = (0, 5)) squares
       \<and> (7 + 2) mod 2 = ((0 + 5) mod 2 :: nat)
       \<and> gameOver s' \<and> result s' = Some Draw"
proof -
  have e: "(case makeMove bishopsLive (plainMove (sq 7 4) (sq 6 4)) of
     Some (Some s') \<Rightarrow>
        (case getLegalMoves s' None of Some l \<Rightarrow> l \<noteq> [] | None \<Rightarrow> False)
        \<and> board s' 7 2 = Some \<lparr>color = White, type = Bishop\<rparr>
        \<and> board s' 0 5 = Some \<lparr>color = Black, type = Bishop\<rparr>
        \<and> list_all (\<lambda>(r, k). case board s' r k of None \<Rightarrow> True
            | Some p \<Rightarrow> type p = King \<or> (r, k) = (7, 2) \<or> (r, k) = (0, 5)) squares
   | _ \<Rightarrow> False)"
    by code_simp
  then obtain s' where s': "makeMove bishopsLive (plainMove (sq 7 4) (sq 6 4)) = Some (Some s')"
    by (auto split: option.splits)
  with e obtain l where l: "getLegalMoves s' None = Some l" "l \<noteq> []"
    by (auto split: option.splits)
  from e s' have wb: "board s' 7 2 = Some \<lparr>color = White, type = Bishop\<rparr>"
    and bb: "board s' 0 5 = Some \<lparr>color = Black, type = Bishop\<rparr>"
    and la: "list_all (\<lambda>(r, k). case board s' r k of None \<Rightarrow> True
            | Some p \<Rightarrow> type p = King \<or> (r, k) = (7, 2) \<or> (r, k) = (0, 5)) squares"
    by simp_all
  from la have rest: "\<And>r k p. r < 8 \<Longrightarrow> k < 8 \<Longrightarrow> board s' r k = Some p
                 \<Longrightarrow> type p = King \<or> (r, k) = (7, 2) \<or> (r, k) = (0, 5)"
    unfolding list_all_squares by fastforce
  have live: "\<not> gameOver bishopsLive" by (simp add: bishopsLive_def stateOf_def)
  have par: "(7 + 2) mod 2 = ((0 + 5) mod 2 :: nat)" by simp
  have n: "(7::nat) < 8" "(2::nat) < 8" "(0::nat) < 8" "(5::nat) < 8" by simp_all
  note T = makeMove_bishops[OF s' live l n(1,2) wb n(3,4) bb rest]
  from T par have concl: "gameOver s' \<and> result s' = Some Draw" by blast
  have ex: "\<exists>l. getLegalMoves s' None = Some l \<and> l \<noteq> []" using l by blast
  from s' live ex wb bb la par concl show ?thesis by (intro exI[of _ s'] conjI) blast+
qed



end
